theory Spec2Isabelle
  imports Complex_Main "HOL-Library.Sublist" "HOL-Library.AList"
    "HOL-Library.List_Lexorder" "HOL-Library.Char_ord"
begin

section \<open>Python values and exceptions\<close>

text \<open>
  The two source files are \<^verbatim>\<open>annograph/io/helper.py\<close> and \<^verbatim>\<open>polyglotdb/corpus.py\<close>.
  Every exception the modelled code can raise is a constructor of \<open>error\<close>; a function that
  can raise returns \<open>error + 'a\<close> with \<open>Inl\<close> for the exception.
  \<open>Unsupported_pattern\<close> is not a Python exception: it marks a morpheme delimiter that the
  source would compile as a regular expression outside the literal fragment modelled here.
\<close>

datatype error = NameError | TypeError | ValueError | KeyError | IndexError
  | AttributeError | RecursionError | Unsupported_pattern

text \<open>
  Python objects that reach an \<open>Attribute\<close>: \<open>None\<close>, a number (\<open>int\<close> and \<open>float\<close> compare by
  their numeric value, so one constructor over the reals stands for both; NaN and the
  infinities are not modelled), a string, and a list. A list is the one unhashable kind.
\<close>

datatype pyval = PNone | PNum real | PStr string | PList "pyval list"

fun hashable :: "pyval \<Rightarrow> bool" where
  "hashable (PList xs) = False"
| "hashable v = True"

fun truthy :: "pyval \<Rightarrow> bool" where
  "truthy PNone = False"
| "truthy (PNum x) = (x \<noteq> 0)"
| "truthy (PStr s) = (s \<noteq> [])"
| "truthy (PList xs) = (xs \<noteq> [])"

text \<open>\<open>x in s\<close> for two strings: \<open>x\<close> occurs in \<open>s\<close> as a contiguous substring.\<close>

fun str_contains :: "string \<Rightarrow> string \<Rightarrow> bool" where
  "str_contains x [] = (x = [])"
| "str_contains x (c # cs) = (prefix x (c # cs) \<or> str_contains x cs)"

text \<open>
  The names bound at module level in \<^verbatim>\<open>helper.py\<close>: its four \<^verbatim>\<open>import\<close>s, the name imported
  from \<^verbatim>\<open>annograph.exceptions\<close>, and its own classes, functions and constants. A function
  body that reads any other global name raises \<open>NameError\<close> when it reaches that name.
\<close>

definition helper_globals :: "string list" where
  "helper_globals = [''re'', ''os'', ''string'', ''logging'', ''DelimiterError'',
     ''NUMBER_CHARACTERS'', ''Attribute'', ''BaseAnnotation'', ''Annotation'',
     ''AnnotationType'', ''DiscourseData'', ''get_corpora_list'', ''corpus_name_to_path'',
     ''compile_digraphs'', ''inspect_directory'', ''parse_numbers'', ''parse_transcription'',
     ''text_to_lines'', ''find_wav_path'', ''log_annotation_types'', ''data_to_discourse'']"

definition lookup_global :: "string \<Rightarrow> error + unit" where
  "lookup_global n = (if n \<in> set helper_globals then Inr () else Inl NameError)"

section \<open>Attribute\<close>

datatype att_type = Spelling | Tier | Numeric | Factor

text \<open>
  \<open>_range\<close> is \<open>None\<close> (spelling), the two-element list \<open>[min, max]\<close> (numeric) or a set
  (factor, tier).
\<close>

datatype rng = RNone | RPair real real | RSet "pyval set"

record attribute =
  att_name :: string
  att_type :: att_type
  att_display_name :: "string option"
  att_default_value :: pyval
  att_range :: rng
  att_delim :: "string option"

definition ATT_TYPES :: "att_type list" where
  "ATT_TYPES = [Spelling, Tier, Numeric, Factor]"

text \<open>\<open>Attribute.__init__\<close>. \<open>set([default_value])\<close> raises on an unhashable value.\<close>

definition Attribute_init :: "string \<Rightarrow> att_type \<Rightarrow> string option \<Rightarrow> pyval \<Rightarrow> error + attribute" where
  "Attribute_init n t dn dv =
     (case t of
        Numeric \<Rightarrow> Inr \<lparr>att_name = n, att_type = t, att_display_name = dn,
            att_default_value = (case dv of PNum x \<Rightarrow> PNum x | _ \<Rightarrow> PNum 0),
            att_range = RPair 0 0, att_delim = None\<rparr>
      | Factor \<Rightarrow>
          (if truthy dv \<and> \<not> hashable dv then Inl TypeError
           else Inr \<lparr>att_name = n, att_type = t, att_display_name = dn,
            att_default_value = (case dv of PStr s \<Rightarrow> PStr s | _ \<Rightarrow> PStr []),
            att_range = (if truthy dv then RSet {dv} else RSet {}), att_delim = None\<rparr>)
      | Spelling \<Rightarrow> Inr \<lparr>att_name = n, att_type = t, att_display_name = dn,
            att_default_value = (case dv of PStr s \<Rightarrow> PStr s | _ \<Rightarrow> PStr []),
            att_range = RNone, att_delim = None\<rparr>
      | Tier \<Rightarrow> Inr \<lparr>att_name = n, att_type = t, att_display_name = dn,
            att_default_value = (if dv \<noteq> PNone then dv else PList []),
            att_range = RSet {}, att_delim = None\<rparr>)"

text \<open>
  The \<open>default_value\<close> setter: two assignments. The first has happened when the second
  raises, so the result is the attribute as the call leaves it and the exception, if any.
\<close>

definition set_default_value :: "attribute \<Rightarrow> pyval \<Rightarrow> attribute \<times> error option" where
  "set_default_value a v =
     (let a1 = a\<lparr>att_default_value := v\<rparr>
      in if hashable v then (a1\<lparr>att_range := RSet {v}\<rparr>, None) else (a1, Some TypeError))"

text \<open>
  \<open>Attribute.update_range\<close>. \<open>float(value)\<close> is the interpreter's; it is the parameter
  \<open>pyfloat\<close>, \<open>None\<close> where \<open>float\<close> raises \<open>ValueError\<close>. Iterating a string yields its
  characters, iterating a list its elements, iterating a number raises.
\<close>

fun py_iter :: "pyval \<Rightarrow> error + pyval list" where
  "py_iter (PStr s) = Inr (map (\<lambda>c. PStr [c]) s)"
| "py_iter (PList xs) = Inr xs"
| "py_iter v = Inl TypeError"

definition numeric_update :: "attribute \<Rightarrow> pyval \<Rightarrow> error + attribute" where
  "numeric_update a v =
     (case att_range a of
        RPair lo hi \<Rightarrow>
          (case v of
             PNum x \<Rightarrow>
               (if x < lo then Inr (a\<lparr>att_range := RPair x hi\<rparr>)
                else if x > hi then Inr (a\<lparr>att_range := RPair lo x\<rparr>)
                else Inr a)
           | _ \<Rightarrow> Inl TypeError)
      | _ \<Rightarrow> Inl TypeError)"

definition update_range :: "(string \<Rightarrow> real option) \<Rightarrow> attribute \<Rightarrow> pyval \<Rightarrow> error + attribute" where
  "update_range pyfloat a v =
     (if v = PNone then Inr a
      else case att_type a of
        Numeric \<Rightarrow>
          (case v of
             PStr s \<Rightarrow>
               (case pyfloat s of
                  None \<Rightarrow> Inr (a\<lparr>att_type := Spelling, att_range := RNone\<rparr>)
                | Some x \<Rightarrow> numeric_update a (PNum x))
           | _ \<Rightarrow> numeric_update a v)
      | Factor \<Rightarrow>
          (case att_range a of
             RSet S \<Rightarrow> (if hashable v then Inr (a\<lparr>att_range := RSet (insert v S)\<rparr>) else Inl TypeError)
           | _ \<Rightarrow> Inl AttributeError)
      | Tier \<Rightarrow>
          (case (case att_range a of RPair lo hi \<Rightarrow> RSet {PNum lo, PNum hi} | r \<Rightarrow> r) of
             RSet S \<Rightarrow>
               (case py_iter v of
                  Inl e \<Rightarrow> Inl e
                | Inr xs \<Rightarrow> (if list_all hashable xs then Inr (a\<lparr>att_range := RSet (S \<union> set xs)\<rparr>)
                            else Inl TypeError))
           | _ \<Rightarrow> Inl AttributeError)
      | Spelling \<Rightarrow> Inr a)"

text \<open>A run of \<open>update_range\<close> calls, one per value, in order; the first exception ends it.\<close>

fun update_ranges :: "(string \<Rightarrow> real option) \<Rightarrow> attribute \<Rightarrow> pyval list \<Rightarrow> error + attribute" where
  "update_ranges pyfloat a [] = Inr a"
| "update_ranges pyfloat a (v # vs) =
     (case update_range pyfloat a v of Inl e \<Rightarrow> Inl e | Inr a' \<Rightarrow> update_ranges pyfloat a' vs)"

text \<open>
  \<open>Attribute.guess_type\<close>. The counters are a dict built in the order of \<open>ATT_TYPES\<close>;
  \<open>max\<close> returns the first item with the greatest count. The \<open>return\<close> statement reads the
  global name \<open>operator\<close>.
\<close>

definition default_trans_delimiters :: "string list" where
  "default_trans_delimiters = [''.'', '' '', '';'', '','']"

fun bump :: "att_type \<Rightarrow> (att_type \<times> nat) list \<Rightarrow> (att_type \<times> nat) list" where
  "bump t [] = []"
| "bump t ((k, n) # kvs) = (if k = t then (k, Suc n) # kvs else (k, n) # bump t kvs)"

definition classify :: "(string \<Rightarrow> real option) \<Rightarrow> string list \<Rightarrow> string list \<Rightarrow> nat \<times> string \<Rightarrow> att_type" where
  "classify pyfloat trans_delimiters vals iv =
     (case iv of (i, v) \<Rightarrow>
        if pyfloat v \<noteq> None then Numeric
        else if list_ex (\<lambda>d. str_contains d v) trans_delimiters then Tier
        else if v \<in> set (map snd (filter (\<lambda>jv. i \<noteq> fst jv) (enumerate 0 vals))) then Factor
        else Spelling)"

fun py_max_count :: "(att_type \<times> nat) \<Rightarrow> (att_type \<times> nat) list \<Rightarrow> att_type \<times> nat" where
  "py_max_count best [] = best"
| "py_max_count best (kv # kvs) = py_max_count (if snd best < snd kv then kv else best) kvs"

definition guess_type :: "(string \<Rightarrow> real option) \<Rightarrow> string list \<Rightarrow> string list option \<Rightarrow> error + att_type" where
  "guess_type pyfloat vals trans_delimiters =
     (let ds = (case trans_delimiters of None \<Rightarrow> default_trans_delimiters | Some ds \<Rightarrow> ds);
          probable_values = fold (\<lambda>iv pv. bump (classify pyfloat ds vals iv) pv)
                              (enumerate 0 vals) (map (\<lambda>x. (x, 0)) ATT_TYPES)
      in case lookup_global ''operator'' of
           Inl e \<Rightarrow> Inl e
         | Inr u \<Rightarrow> Inr (fst (py_max_count (hd probable_values) (tl probable_values))))"

section \<open>Segments and annotation types\<close>

text \<open>
  \<open>BaseAnnotation\<close>: a label, optional begin and end positions (the fields \<open>begin\<close> and \<open>end\<close>
  of the source), stress, tone and morpheme group.
\<close>

record segment =
  label :: string
  seg_begin :: "real option"
  seg_end :: "real option"
  stress :: "string option"
  tone :: "string option"
  group :: "nat option"

definition BaseAnnotation :: "string \<Rightarrow> segment" where
  "BaseAnnotation l = \<lparr>label = l, seg_begin = None, seg_end = None, stress = None,
     tone = None, group = None\<rparr>"

text \<open>\<open>setattr(a, number_behavior, num)\<close>, reached only for the two numeric policies.\<close>

definition setattr_number :: "string \<Rightarrow> string option \<Rightarrow> segment \<Rightarrow> segment" where
  "setattr_number nb num a =
     (if nb = ''stress'' then a\<lparr>stress := num\<rparr>
      else if nb = ''tone'' then a\<lparr>tone := num\<rparr> else a)"

text \<open>
  \<open>AnnotationType\<close>. The Python sets \<open>digraphs\<close>, \<open>morph_delimiters\<close> and
  \<open>ignored_characters\<close> are lists in the order the set iterates; \<open>annotations\<close> is \<open>_list\<close>,
  whose elements are segments, annotations or dicts depending on the caller (\<open>'a\<close>).
\<close>

record 'a annotation_type =
  characters :: "string set"
  ignored_characters :: "string list option"
  digraphs :: "string list"
  trans_delimiter :: "string option"
  morph_delimiters :: "string list"
  number_behavior :: "string option"
  annotations :: "'a list"
  name :: string
  subtype :: "string option"
  supertype :: "string option"
  token :: bool
  base :: bool
  anchor :: bool
  speaker :: "string option"
  ignored :: bool
  output_name :: string
  attribute :: attribute

definition delimited :: "'a annotation_type \<Rightarrow> bool" where
  "delimited v = (if trans_delimiter v \<noteq> None then True
                  else if digraphs v \<noteq> [] then True else False)"

definition is_word_anchor :: "('a, 'b) annotation_type_scheme \<Rightarrow> bool" where
  "is_word_anchor v = (\<not> token v \<and> anchor v)"

definition is_token_base :: "('a, 'b) annotation_type_scheme \<Rightarrow> bool" where
  "is_token_base v = (token v \<and> base v)"

definition is_type_base :: "('a, 'b) annotation_type_scheme \<Rightarrow> bool" where
  "is_type_base v = (\<not> token v \<and> base v)"

text \<open>
  The regular-expression and case-mapping calls of the constructor are the interpreter's
  and depend on its Unicode tables; they are parameters: \<open>lower\<close> is \<open>str.lower\<close>,
  \<open>sub_nonword\<close> is \<open>re.sub('\W', '', \<cdot>)\<close> and \<open>sub_speaker sp\<close> is
  \<open>re.sub('{}\W*'.format(sp), '', \<cdot>)\<close>.
\<close>

record relib =
  lower :: "string \<Rightarrow> string"
  sub_nonword :: "string \<Rightarrow> string"
  sub_speaker :: "string \<Rightarrow> string \<Rightarrow> string"

definition sanitize_name :: "relib \<Rightarrow> string \<Rightarrow> string" where
  "sanitize_name lib n = sub_nonword lib (lower lib n)"

text \<open>
  \<open>AnnotationType.__init__(self, name, subtype, supertype, attribute = None,
  anchor = False, token = False, base = False, speaker = None)\<close>. A call passes its keyword
  arguments as a list of names and values; a keyword that is not a parameter makes the call
  raise \<open>TypeError\<close> before the body runs.
\<close>

datatype kwarg = KBool bool | KSpeaker "string option" | KAttribute "attribute option"

definition init_parameters :: "string list" where
  "init_parameters = [''attribute'', ''anchor'', ''token'', ''base'', ''speaker'']"

definition kw_bool :: "(string \<times> kwarg) list \<Rightarrow> string \<Rightarrow> bool" where
  "kw_bool kwargs k = (case map_of kwargs k of Some (KBool b) \<Rightarrow> b | _ \<Rightarrow> False)"

definition AnnotationType_init ::
  "relib \<Rightarrow> string \<Rightarrow> string option \<Rightarrow> string option \<Rightarrow> (string \<times> kwarg) list
     \<Rightarrow> error + 'a annotation_type" where
  "AnnotationType_init lib n subt supt kwargs =
     (if list_ex (\<lambda>k. k \<notin> set init_parameters) (map fst kwargs) then Inl TypeError
      else
        let sp = (case map_of kwargs ''speaker'' of Some (KSpeaker s) \<Rightarrow> s | _ \<Rightarrow> None);
            b = kw_bool kwargs ''base'';
            att = (case map_of kwargs ''attribute'' of Some (KAttribute (Some a)) \<Rightarrow> Inr a
                   | _ \<Rightarrow> Attribute_init (sanitize_name lib n) (if b then Tier else Spelling)
                           (Some n) PNone)
        in case att of
             Inl e \<Rightarrow> Inl e
           | Inr a \<Rightarrow> Inr \<lparr>characters = {}, ignored_characters = Some [], digraphs = [],
               trans_delimiter = None, morph_delimiters = [], number_behavior = None,
               annotations = [], name = n, subtype = subt, supertype = supt,
               token = kw_bool kwargs ''token'', base = b, anchor = kw_bool kwargs ''anchor'',
               speaker = sp, ignored = False,
               output_name = (case sp of None \<Rightarrow> n | Some s \<Rightarrow> sub_speaker lib s n),
               attribute = a\<rparr>)"

section \<open>The transcription tokenizer\<close>

text \<open>
  Strings are lists of 8-bit characters, read as the code points below 256. On these,
  \<open>\d\<close> matches the ten ASCII digits, which are also \<open>NUMBER_CHARACTERS\<close>, and \<open>\S\<close> matches
  every character that is not white space.
\<close>

definition NUMBER_CHARACTERS :: "char set" where
  "NUMBER_CHARACTERS = set ''0123456789''"

definition py_isdigit :: "char \<Rightarrow> bool" where
  "py_isdigit c = (c \<in> set ''0123456789'')"

definition py_isspace :: "char \<Rightarrow> bool" where
  "py_isspace c = ((of_char c :: nat) \<in> set [9, 10, 11, 12, 13, 28, 29, 30, 31, 32, 133, 160])"

text \<open>
  \<open>str.split(sep)\<close>: the pieces between the leftmost non-overlapping occurrences of
  \<open>sep\<close>; an empty separator raises \<open>ValueError\<close>. A piece grows by one character where the
  separator does not start; where it starts, the piece ends and the scan resumes behind it
  (\<open>drop (length sep - 1) cs\<close> is the rest behind a non-empty separator that starts at \<open>c\<close>).
\<close>

fun str_split :: "string \<Rightarrow> string \<Rightarrow> string list" where
  "str_split sep [] = [[]]"
| "str_split sep (c # cs) =
     (if prefix sep (c # cs) then [] # str_split sep (drop (length sep - 1) cs)
      else (case str_split sep cs of [] \<Rightarrow> [[c]] | p # ps \<Rightarrow> (c # p) # ps))"

definition py_split :: "string \<Rightarrow> string \<Rightarrow> error + string list" where
  "py_split s sep = (if sep = [] then Inl ValueError else Inr (str_split sep s))"

text \<open>
  \<open>re.split("|".join(md), string)\<close>. The delimiters are compiled as a regular expression;
  the model covers delimiters that are literal (not empty, no metacharacter), for which the
  alternation matches, at the leftmost position where any of them starts, the first one in
  the order of the pattern.
\<close>

definition regex_special :: "char set" where
  "regex_special = set [CHR ''.'', CHR ''^'', CHR ''$'', CHR ''*'', CHR ''+'', CHR ''?'',
     CHR ''{'', CHR ''}'', CHR ''['', CHR '']'', CHR 0x5C, CHR ''|'', CHR ''('', CHR '')'']"

definition literal_pattern :: "string \<Rightarrow> bool" where
  "literal_pattern d = (d \<noteq> [] \<and> list_all (\<lambda>c. c \<notin> regex_special) d)"

fun alt_split :: "string list \<Rightarrow> string \<Rightarrow> string list" where
  "alt_split alts [] = [[]]"
| "alt_split alts (c # cs) =
     (case find (\<lambda>d. prefix d (c # cs)) alts of
        Some d \<Rightarrow> [] # alt_split alts (drop (length d - 1) cs)
      | None \<Rightarrow> (case alt_split alts cs of [] \<Rightarrow> [[c]] | p # ps \<Rightarrow> (c # p) # ps))"

definition re_split :: "string list \<Rightarrow> string \<Rightarrow> error + string list" where
  "re_split md s = (if list_all literal_pattern md then Inr (alt_split md s)
                    else Inl Unsupported_pattern)"

text \<open>
  \<open>compile_digraphs\<close>: the digraphs sorted by length, longest first (\<open>sorted\<close> is stable, also
  with \<open>reverse=True\<close>), each escaped, followed by the alternatives \<open>\d+\<close> and \<open>\S\<close>. A compiled
  pattern is the list of its literal alternatives; \<open>parse_numbers\<close> has none.
\<close>

definition compile_digraphs :: "string list \<Rightarrow> string list" where
  "compile_digraphs digraph_list = sort_key (\<lambda>x. - int (length x)) digraph_list"

definition digraph_pattern :: "('a, 'b) annotation_type_scheme \<Rightarrow> string list option" where
  "digraph_pattern v = (if length (digraphs v) = 0 then None
                        else Some (compile_digraphs (digraphs v)))"

definition parse_numbers :: "string list" where
  "parse_numbers = []"

text \<open>
  \<open>pattern.findall(string)\<close> for such a pattern: at each position the first alternative
  that matches, then the scan resumes behind the match; a position where nothing matches
  (white space) is skipped. An empty alternative matches everywhere: the scan reports the
  empty match and then looks for a non-empty match at the same position (the rule of
  Python 3.7 and later for empty matches).
\<close>

function findall :: "string list \<Rightarrow> string \<Rightarrow> string list" where
  "findall alts [] = (if [] \<in> set alts then [[]] else [])"
| "findall alts (c # cs) =
     (if find (\<lambda>d. prefix d (c # cs)) alts = Some [] then [[]] else []) @
     (case find (\<lambda>d. d \<noteq> [] \<and> prefix d (c # cs)) alts of
        Some d \<Rightarrow> d # findall alts (drop (length d - 1) cs)
      | None \<Rightarrow>
          if py_isdigit c then (c # takeWhile py_isdigit cs) # findall alts (dropWhile py_isdigit cs)
          else if py_isspace c then findall alts cs
          else [c] # findall alts cs)"
  by pat_completeness auto
termination
  by (relation "measure (\<lambda>(alts, s). length s)")
    (auto simp: less_Suc_eq_le length_dropWhile_le intro: le_trans [OF length_drop [THEN eq_imp_le]])

declare findall.simps [simp del]

text \<open>
  The loop of \<open>parse_transcription\<close> over the tokens, with \<open>final_string\<close> as accumulator.
  \<open>final_string[-1]\<close> raises \<open>IndexError\<close> on the empty list.
\<close>

fun number_loop :: "string option \<Rightarrow> string list \<Rightarrow> segment list \<Rightarrow> error + segment list" where
  "number_loop nb [] final_string = Inr final_string"
| "number_loop nb (seg # segs) final_string =
     (if seg = [] then number_loop nb segs final_string
      else case nb of
        None \<Rightarrow> number_loop nb segs (final_string @ [BaseAnnotation seg])
      | Some b \<Rightarrow>
          (let strip = (b = ''stress'' \<or> b = ''tone'');
               num0 = (if strip then Some (filter (\<lambda>x. x \<in> NUMBER_CHARACTERS) seg) else None);
               seg' = (if strip then filter (\<lambda>x. x \<notin> NUMBER_CHARACTERS) seg else seg);
               num = (if num0 = Some [] then None else num0)
           in if seg' = [] then
                (if final_string = [] then Inl IndexError
                 else number_loop nb segs
                        (butlast final_string @ [setattr_number b num (last final_string)]))
              else number_loop nb segs
                     (final_string @ [if num \<noteq> None then setattr_number b num (BaseAnnotation seg')
                                      else BaseAnnotation seg'])))"

text \<open>The morphs' results in order: the first exception ends the loop; \<open>t.group = i\<close>.\<close>

fun collect_morphs :: "(nat \<times> (error + segment list)) list \<Rightarrow> error + segment list" where
  "collect_morphs [] = Inr []"
| "collect_morphs ((i, r) # rest) =
     (case r of
        Inl e \<Rightarrow> Inl e
      | Inr transcr \<Rightarrow>
          (case collect_morphs rest of
             Inl e \<Rightarrow> Inl e
           | Inr ts \<Rightarrow> Inr (map (\<lambda>t. t\<lparr>group := Some i\<rparr>) transcr @ ts)))"

text \<open>
  \<open>parse_transcription(string, annotation_type)\<close>. The function calls itself on every
  morph; the first argument is the number of nested calls the interpreter's recursion
  limit still allows, and \<open>RecursionError\<close> is what the interpreter raises at the limit.
\<close>

fun parse_transcription :: "nat \<Rightarrow> string \<Rightarrow> 'a annotation_type \<Rightarrow> error + segment list" where
  "parse_transcription 0 s v = Inl RecursionError"
| "parse_transcription (Suc fuel) s v =
     (let md = morph_delimiters v in
      if length md \<noteq> 0 \<and> list_ex (\<lambda>x. str_contains x s) md then
        (case re_split md s of
           Inl e \<Rightarrow> Inl e
         | Inr morphs \<Rightarrow>
             collect_morphs (map (\<lambda>im. (fst im, parse_transcription fuel (snd im) v))
                                 (enumerate 0 morphs)))
      else
        let s1 = (case ignored_characters v of
                    None \<Rightarrow> s
                  | Some ign \<Rightarrow> filter (\<lambda>x. [x] \<notin> set ign) s);
            toks = (case trans_delimiter v of
                      Some d \<Rightarrow> py_split s1 d
                    | None \<Rightarrow>
                        (case digraph_pattern v of
                           Some pat \<Rightarrow> Inr (findall pat s1)
                         | None \<Rightarrow> Inr (findall parse_numbers s1)))
        in case toks of
             Inl e \<Rightarrow> Inl e
           | Inr segs \<Rightarrow> number_loop (number_behavior v) segs [])"

section \<open>DiscourseData\<close>

text \<open>
  \<open>data\<close> is a dict from tier name to tier; it is the list of its items in insertion order
  (\<open>AList.update\<close> keeps the place of a key that is already there, as a dict does).
\<close>

record 'a discourse_data =
  dd_name :: string
  data :: "(string \<times> 'a annotation_type) list"
  wav_path :: "string option"

definition DiscourseData_init :: "string \<Rightarrow> 'a annotation_type list \<Rightarrow> 'a discourse_data" where
  "DiscourseData_init n levels =
     \<lparr>dd_name = n, data = fold (\<lambda>x m. AList.update (name x) x m) levels [], wav_path = None\<rparr>"

definition word_levels :: "('a, 'b) discourse_data_scheme \<Rightarrow> string list" where
  "word_levels d = map fst (filter (\<lambda>kv. is_word_anchor (snd kv)) (data d))"

definition base_levels :: "('a, 'b) discourse_data_scheme \<Rightarrow> string list" where
  "base_levels d = map fst (filter (\<lambda>kv. base (snd kv)) (data d))"

definition mapping :: "('a, 'b) discourse_data_scheme \<Rightarrow> (string \<times> attribute) list" where
  "mapping d = fold (\<lambda>x m. AList.update (name x) (attribute x) m)
                 (filter (\<lambda>x. \<not> ignored x) (map snd (data d))) []"

subsection \<open>process_order\<close>

text \<open>One run of the \<open>for\<close> loop over the items, appending to \<open>order\<close>.\<close>

fun process_pass :: "(string \<times> 'a annotation_type) list \<Rightarrow> string list \<Rightarrow> string list" where
  "process_pass [] order = order"
| "process_pass ((k, v) # kvs) order =
     (if k \<in> set order then process_pass kvs order
      else if base v then process_pass kvs order
      else case supertype v of
             None \<Rightarrow> process_pass kvs (order @ [k])
           | Some s \<Rightarrow> if s \<in> set order then process_pass kvs (order @ [k])
                       else process_pass kvs order)"

text \<open>
  The \<open>while\<close> loop. It has no exit but its condition and raises nothing, so a run is
  either a list or no result at all: \<open>None\<close> is the loop that never ends.
\<close>

partial_function (option) process_loop ::
  "(string \<times> 'a annotation_type) list \<Rightarrow> nat \<Rightarrow> string list \<Rightarrow> string list option" where
  "process_loop items bound order =
     (if length order < bound then process_loop items bound (process_pass items order)
      else Some order)"

definition process_order :: "'a discourse_data \<Rightarrow> string list option" where
  "process_order d =
     process_loop (data d) (length (map fst (data d)) - length (base_levels d)) (word_levels d)"

subsection \<open>collapse_speakers\<close>

text \<open>
  The annotations \<open>collapse_speakers\<close> reads are dicts (it calls \<open>ann.items()\<close>): a value is a
  cross-reference interval \<open>(begin, end)\<close> or a string.
\<close>

datatype refval = Interval int int | Label string

type_synonym dict_annotation = "(string \<times> refval) list"

fun fold_err :: "('a \<Rightarrow> 's \<Rightarrow> error + 's) \<Rightarrow> 'a list \<Rightarrow> 's \<Rightarrow> error + 's" where
  "fold_err f [] st = Inr st"
| "fold_err f (x # xs) st = (case f x st of Inl e \<Rightarrow> Inl e | Inr st' \<Rightarrow> fold_err f xs st')"

definition speakers_of :: "'a discourse_data \<Rightarrow> string list" where
  "speakers_of d = sort (remdups (List.map_filter (\<lambda>kv. speaker (snd kv)) (data d)))"

definition speaker_keys :: "'a discourse_data \<Rightarrow> string \<Rightarrow> string list" where
  "speaker_keys d s =
     map fst (filter (\<lambda>kv. speaker (snd kv) = Some s \<and> \<not> base (snd kv)) (data d)) @
     map fst (filter (\<lambda>kv. speaker (snd kv) = Some s \<and> base (snd kv)) (data d))"

definition merge_keys :: "'a discourse_data \<Rightarrow> string list" where
  "merge_keys d = concat (map (speaker_keys d) (speakers_of d))"

definition initial_shifts :: "'a discourse_data \<Rightarrow> (string \<times> int) list" where
  "initial_shifts d = fold (\<lambda>kv m. AList.update (output_name (snd kv)) 0 m)
                        (filter (\<lambda>kv. base (snd kv)) (data d)) []"

text \<open>
  One item of an annotation. \<open>self.data[k2]\<close> and \<open>shifts[newk2]\<close> raise \<open>KeyError\<close>, which
  the \<open>except\<close> clause turns into the unchanged item; \<open>v2[0]\<close> on an empty string and the sum of
  a character and a number raise past it.
\<close>

definition translate_item ::
  "(string \<times> dict_annotation annotation_type) list \<Rightarrow> (string \<times> int) list
     \<Rightarrow> string \<times> refval \<Rightarrow> dict_annotation \<Rightarrow> error + dict_annotation" where
  "translate_item dat shifts kv newann =
     (case kv of (k2, v2) \<Rightarrow>
        (case map_of dat k2 of
           None \<Rightarrow> Inr (AList.update k2 v2 newann)
         | Some t \<Rightarrow>
             (case v2 of
                Label l \<Rightarrow>
                  (if l = [] then Inl IndexError
                   else case map_of shifts (output_name t) of
                          None \<Rightarrow> Inr (AList.update k2 v2 newann)
                        | Some sh \<Rightarrow> Inl TypeError)
              | Interval b e \<Rightarrow>
                  (case map_of shifts (output_name t) of
                     None \<Rightarrow> Inr (AList.update k2 v2 newann)
                   | Some sh \<Rightarrow> Inr (AList.update (output_name t) (Interval (b + sh) (e + sh)) newann)))))"

text \<open>\<open>AnnotationType.add([a])\<close> with \<open>save = True\<close>; iterating a dict yields its keys.\<close>

definition add_annotation ::
  "dict_annotation \<Rightarrow> dict_annotation annotation_type \<Rightarrow> dict_annotation annotation_type" where
  "add_annotation a t =
     t\<lparr>characters := characters t \<union> set (map fst a), annotations := annotations t @ [a]\<rparr>"

definition add_translated ::
  "(string \<times> dict_annotation annotation_type) list \<Rightarrow> (string \<times> int) list \<Rightarrow> string
     \<Rightarrow> dict_annotation \<Rightarrow> (string \<times> dict_annotation annotation_type) list
     \<Rightarrow> error + (string \<times> dict_annotation annotation_type) list" where
  "add_translated dat shifts nm ann newdata =
     (case fold_err (translate_item dat shifts) ann [] of
        Inl e \<Rightarrow> Inl e
      | Inr newann \<Rightarrow>
          (case map_of newdata nm of
             None \<Rightarrow> Inl KeyError
           | Some t \<Rightarrow> Inr (AList.update nm (add_annotation newann t) newdata)))"

definition merged_name ::
  "(string \<times> 'a annotation_type) list \<Rightarrow> string option \<Rightarrow> error + string option" where
  "merged_name dat r =
     (case r of
        None \<Rightarrow> Inr None
      | Some k \<Rightarrow> (case map_of dat k of None \<Rightarrow> Inl KeyError | Some t \<Rightarrow> Inr (Some (output_name t))))"

text \<open>
  The creation of a destination tier on first encounter. The call passes the keywords
  \<open>anchor\<close>, \<open>token\<close>, \<open>base\<close> and \<open>delimited\<close>.
\<close>

definition create_merged ::
  "relib \<Rightarrow> (string \<times> dict_annotation annotation_type) list \<Rightarrow> dict_annotation annotation_type
     \<Rightarrow> (string \<times> dict_annotation annotation_type) list
     \<Rightarrow> error + (string \<times> dict_annotation annotation_type) list" where
  "create_merged lib dat v newdata =
     (case merged_name dat (subtype v) of
        Inl e \<Rightarrow> Inl e
      | Inr subt \<Rightarrow>
          (case merged_name dat (supertype v) of
             Inl e \<Rightarrow> Inl e
           | Inr supt \<Rightarrow>
               (case AnnotationType_init lib (output_name v) subt supt
                       [(''anchor'', KBool (anchor v)), (''token'', KBool (token v)),
                        (''base'', KBool (base v)), (''delimited'', KBool (delimited v))] of
                  Inl e \<Rightarrow> Inl e
                | Inr t \<Rightarrow> Inr (AList.update (output_name v) t newdata))))"

definition collapse_step ::
  "relib \<Rightarrow> (string \<times> dict_annotation annotation_type) list \<Rightarrow> string
     \<Rightarrow> (string \<times> dict_annotation annotation_type) list \<times> (string \<times> int) list
     \<Rightarrow> error + (string \<times> dict_annotation annotation_type) list \<times> (string \<times> int) list" where
  "collapse_step lib dat k st =
     (case st of (newdata, shifts) \<Rightarrow>
        (case map_of dat k of
           None \<Rightarrow> Inl KeyError
         | Some v \<Rightarrow>
             (case (if map_of newdata (output_name v) = None then create_merged lib dat v newdata
                    else Inr newdata) of
                Inl e \<Rightarrow> Inl e
              | Inr nd \<Rightarrow>
                  (case fold_err (add_translated dat shifts (output_name v)) (annotations v) nd of
                     Inl e \<Rightarrow> Inl e
                   | Inr nd' \<Rightarrow>
                       (if base v then
                          (case map_of shifts (output_name v) of
                             None \<Rightarrow> Inl KeyError
                           | Some sh \<Rightarrow>
                               Inr (nd', AList.update (output_name v)
                                           (sh + int (length (annotations v))) shifts))
                        else Inr (nd', shifts))))))"

definition collapse_speakers ::
  "relib \<Rightarrow> dict_annotation discourse_data \<Rightarrow> error + dict_annotation discourse_data" where
  "collapse_speakers lib d =
     (case fold_err (collapse_step lib (data d)) (merge_keys d) ([], initial_shifts d) of
        Inl e \<Rightarrow> Inl e
      | Inr st \<Rightarrow> Inr (d\<lparr>data := fst st\<rparr>))"

section \<open>data_to_discourse\<close>

text \<open>
  \<open>Annotation\<close>: label, the parallel lists \<open>references\<close>, \<open>begins\<close>, \<open>ends\<close>, and the dicts
  \<open>token\<close> and \<open>additional\<close> (which may be \<open>None\<close>). A tier read by \<open>data_to_discourse\<close> holds
  annotations (a word level) or segments (a referenced tier).
\<close>

record annotation =
  ann_label :: string
  ann_begins :: "int list"
  ann_ends :: "int list"
  ann_references :: "string list"
  ann_token :: "(string \<times> pyval) list option"
  ann_additional :: "(string \<times> pyval) list option"

datatype element = Seg segment | Ann annotation

text \<open>\<open>xs[b:e]\<close> for integers \<open>b\<close> and \<open>e\<close>: a negative index counts from the end.\<close>

definition slice_index :: "nat \<Rightarrow> int \<Rightarrow> nat" where
  "slice_index n i = (if i < 0 then nat (max 0 (int n + i)) else min n (nat i))"

definition py_slice :: "'a list \<Rightarrow> int \<Rightarrow> int \<Rightarrow> 'a list" where
  "py_slice xs b e =
     take (slice_index (length xs) e - slice_index (length xs) b)
          (drop (slice_index (length xs) b) xs)"

text \<open>
  The keyword arguments collected for a word and for a word token: a pair of an attribute
  and a value or a sequence, a position taken from a segment, the counter \<open>ind\<close>, and the
  word. The classes \<open>Discourse\<close> and \<open>WordToken\<close> and the lexicon are not part of the
  sources; a discourse is the list of the keyword dicts its word tokens are created from.
\<close>

datatype kw = KVal attribute pyval | KSeq attribute "element list" | KPos "real option"
  | KInd int | KWord "(string \<times> kw) list"

type_synonym kwargs = "(string \<times> kw) list"

definition lookup_key :: "(string \<times> 'v) list \<Rightarrow> string \<Rightarrow> error + 'v" where
  "lookup_key m k = (case map_of m k of None \<Rightarrow> Inl KeyError | Some v \<Rightarrow> Inr v)"

definition token_item ::
  "(string \<times> attribute) list \<Rightarrow> string \<times> pyval \<Rightarrow> kwargs \<Rightarrow> error + kwargs" where
  "token_item attribute_mapping kv word_token_kwargs =
     (case lookup_key attribute_mapping (fst kv) of
        Inl e \<Rightarrow> Inl e
      | Inr att \<Rightarrow> Inr (AList.update (att_name att) (KVal att (snd kv)) word_token_kwargs))"

definition additional_item ::
  "(string \<times> element annotation_type) list \<Rightarrow> (string \<times> attribute) list \<Rightarrow> string \<times> pyval
     \<Rightarrow> kwargs \<times> kwargs \<Rightarrow> error + kwargs \<times> kwargs" where
  "additional_item dat attribute_mapping kv st =
     (case st of (word_kwargs, word_token_kwargs) \<Rightarrow>
        (case lookup_key attribute_mapping (fst kv) of
           Inl e \<Rightarrow> Inl e
         | Inr att \<Rightarrow>
             (case lookup_key dat (fst kv) of
                Inl e \<Rightarrow> Inl e
              | Inr t \<Rightarrow>
                  if token t
                  then Inr (word_kwargs, AList.update (att_name att) (KVal att (snd kv)) word_token_kwargs)
                  else Inr (AList.update (att_name att) (KVal att (snd kv)) word_kwargs, word_token_kwargs))))"

text \<open>
  \<open>seq[0].begin\<close> and \<open>seq[-1].end\<close>: a segment has both fields, an \<open>Annotation\<close> object (whose
  constructor does not set them) has not.
\<close>

definition element_begin :: "element \<Rightarrow> error + real option" where
  "element_begin x = (case x of Seg g \<Rightarrow> Inr (seg_begin g) | Ann a \<Rightarrow> Inl AttributeError)"

definition element_end :: "element \<Rightarrow> error + real option" where
  "element_end x = (case x of Seg g \<Rightarrow> Inr (seg_end g) | Ann a \<Rightarrow> Inl AttributeError)"

definition timed_positions :: "element list \<Rightarrow> kwargs \<Rightarrow> error + kwargs" where
  "timed_positions seq word_token_kwargs =
     (if length seq > 0 then
        (case element_begin (hd seq) of
           Inl e \<Rightarrow> Inl e
         | Inr b \<Rightarrow>
             if b \<noteq> None then
               (case element_end (last seq) of
                  Inl e \<Rightarrow> Inl e
                | Inr en \<Rightarrow> Inr (AList.update ''end'' (KPos en)
                                   (AList.update ''begin'' (KPos b) word_token_kwargs)))
             else Inr word_token_kwargs)
      else Inr word_token_kwargs)"

definition reference_item ::
  "(string \<times> element annotation_type) list \<Rightarrow> (string \<times> attribute) list \<Rightarrow> annotation
     \<Rightarrow> nat \<times> string \<Rightarrow> kwargs \<times> kwargs \<Rightarrow> error + kwargs \<times> kwargs" where
  "reference_item dat attribute_mapping s jr st =
     (case st of (word_kwargs, word_token_kwargs) \<Rightarrow>
        (case map_of dat (snd jr) of
           None \<Rightarrow> Inr st
         | Some t \<Rightarrow>
             if length (annotations t) > 0 then
               (if fst jr < length (ann_begins s) \<and> fst jr < length (ann_ends s) then
                  (let seq = py_slice (annotations t) (ann_begins s ! fst jr) (ann_ends s ! fst jr)
                   in case lookup_key attribute_mapping (snd jr) of
                        Inl e \<Rightarrow> Inl e
                      | Inr att \<Rightarrow>
                          if token t then
                            (case timed_positions seq
                                    (AList.update (att_name att) (KSeq att seq) word_token_kwargs) of
                               Inl e \<Rightarrow> Inl e
                             | Inr w \<Rightarrow> Inr (word_kwargs, w))
                          else Inr (AList.update (att_name att) (KSeq att seq) word_kwargs,
                                    word_token_kwargs))
                else Inl IndexError)
             else Inr st))"

text \<open>The body of the inner loop: one word token from one element of a word level.\<close>

definition word_token ::
  "(string \<times> element annotation_type) list \<Rightarrow> (string \<times> attribute) list \<Rightarrow> string
     \<Rightarrow> element \<Rightarrow> int \<Rightarrow> error + kwargs" where
  "word_token dat attribute_mapping level x ind =
     (case x of
        Seg g \<Rightarrow> Inl AttributeError
      | Ann s \<Rightarrow>
          (case lookup_key attribute_mapping level of
             Inl e \<Rightarrow> Inl e
           | Inr latt \<Rightarrow>
               (case fold_err (token_item attribute_mapping)
                       (case ann_token s of None \<Rightarrow> [] | Some m \<Rightarrow> m) [] of
                  Inl e \<Rightarrow> Inl e
                | Inr w0 \<Rightarrow>
                    (case fold_err (additional_item dat attribute_mapping)
                            (case ann_additional s of None \<Rightarrow> [] | Some m \<Rightarrow> m)
                            ([(''spelling'', KVal latt (PStr (ann_label s)))], w0) of
                       Inl e \<Rightarrow> Inl e
                     | Inr st1 \<Rightarrow>
                         (case fold_err (reference_item dat attribute_mapping s)
                                 (enumerate 0 (ann_references s)) st1 of
                            Inl e \<Rightarrow> Inl e
                          | Inr st2 \<Rightarrow>
                              (let w = AList.update ''word'' (KWord (fst st2)) (snd st2)
                               in if map_of w ''begin'' = None
                                  then Inr (AList.update ''end'' (KInd (ind + 1))
                                             (AList.update ''begin'' (KInd ind) w))
                                  else Inr w))))))"

definition token_step ::
  "(string \<times> element annotation_type) list \<Rightarrow> (string \<times> attribute) list \<Rightarrow> string \<times> element
     \<Rightarrow> kwargs list \<times> int \<Rightarrow> error + kwargs list \<times> int" where
  "token_step dat attribute_mapping lx st =
     (case word_token dat attribute_mapping (fst lx) (snd lx) (snd st) of
        Inl e \<Rightarrow> Inl e
      | Inr w \<Rightarrow>
          (case lookup_global ''WordToken'' of
             Inl e \<Rightarrow> Inl e
           | Inr u \<Rightarrow> Inr (fst st @ [w], snd st + 1)))"

definition level_elements :: "element discourse_data \<Rightarrow> (string \<times> element) list" where
  "level_elements d =
     concat (map (\<lambda>kv. map (\<lambda>x. (fst kv, x)) (annotations (snd kv)))
                 (filter (\<lambda>kv. is_word_anchor (snd kv)) (data d)))"

text \<open>
  \<open>data_to_discourse(data, lexicon = None)\<close>. Its second statement calls \<open>Discourse\<close>, and
  the loop body above calls \<open>WordToken\<close>; both are read as global names of \<^verbatim>\<open>helper.py\<close>.
\<close>

definition data_to_discourse :: "element discourse_data \<Rightarrow> error + kwargs list" where
  "data_to_discourse d =
     (let attribute_mapping = mapping d in
      case lookup_global ''Discourse'' of
        Inl e \<Rightarrow> Inl e
      | Inr u \<Rightarrow>
          (case fold_err (\<lambda>kv (st :: unit). map_sum id (\<lambda>t. ()) (lookup_key (data d) (fst kv)))
                  attribute_mapping () of
             Inl e \<Rightarrow> Inl e
           | Inr u' \<Rightarrow>
               map_sum id fst
                 (fold_err (token_step (data d) attribute_mapping) (level_elements d) ([], 0))))"

section \<open>CorpusContext.add_discourse\<close>

text \<open>
  The three persisted fields of a \<open>CorpusContext\<close>, and the discourse data \<open>add_discourse\<close>
  receives: tiers as above, with the attributes \<open>output_types\<close> and \<open>is_timed\<close> it reads.
\<close>

record corpus_context =
  relationship_types :: "string set"
  is_timed :: bool
  hierarchy :: "string \<rightharpoonup> string option"

record 'a corpus_data = "'a discourse_data" +
  output_types :: "string list"
  data_is_timed :: bool

text \<open>
  \<open>data_to_graph_csvs\<close>, \<open>import_csvs\<close>, \<open>update_sql_database\<close> and \<open>add_acoustic_info\<close> write
  files and talk to the two stores; none of them assigns one of the three fields. Each is
  given by the exception it raises, if any.
\<close>

record externals =
  data_to_graph_csvs :: "error option"
  import_csvs :: "error option"
  update_sql_database :: "error option"
  add_acoustic_info :: "error option"

definition hierarchy_item ::
  "('a, 'b) corpus_data_scheme \<Rightarrow> string \<Rightarrow> (string \<rightharpoonup> string option)
     \<Rightarrow> error + (string \<rightharpoonup> string option)" where
  "hierarchy_item d x h =
     (if x = ''word'' then
        (case word_levels d of
           [] \<Rightarrow> Inl IndexError
         | w # ws \<Rightarrow>
             (case lookup_key (data d) w of
                Inl e \<Rightarrow> Inl e
              | Inr t \<Rightarrow> Inr (h(x \<mapsto> supertype t))))
      else
        (case lookup_key (data d) x of
           Inl e \<Rightarrow> Inl e
         | Inr t \<Rightarrow>
             (case supertype t of
                None \<Rightarrow> Inr (h(x \<mapsto> None))
              | Some st \<Rightarrow>
                  (case lookup_key (data d) st of
                     Inl e \<Rightarrow> Inl e
                   | Inr t' \<Rightarrow> Inr (h(x \<mapsto> (if anchor t' then Some ''word'' else Some st)))))))"

definition build_hierarchy ::
  "('a, 'b) corpus_data_scheme \<Rightarrow> error + (string \<rightharpoonup> string option)" where
  "build_hierarchy d = fold_err (hierarchy_item d) (output_types d) Map.empty"

definition add_discourse ::
  "externals \<Rightarrow> corpus_context \<Rightarrow> ('a, 'b) corpus_data_scheme \<Rightarrow> error + corpus_context" where
  "add_discourse ext ctx d =
     (case data_to_graph_csvs ext of
        Some e \<Rightarrow> Inl e
      | None \<Rightarrow>
          (case import_csvs ext of
             Some e \<Rightarrow> Inl e
           | None \<Rightarrow>
               (let c1 = ctx\<lparr>relationship_types := relationship_types ctx \<union> set (output_types d)\<rparr>;
                    c2 = (if data_is_timed d then c1\<lparr>is_timed := True\<rparr> else c1\<lparr>is_timed := False\<rparr>)
                in case update_sql_database ext of
                     Some e \<Rightarrow> Inl e
                   | None \<Rightarrow>
                       (case add_acoustic_info ext of
                          Some e \<Rightarrow> Inl e
                        | None \<Rightarrow>
                            (case build_hierarchy d of
                               Inl e \<Rightarrow> Inl e
                             | Inr h \<Rightarrow> Inr (c2\<lparr>hierarchy := h\<rparr>))))))"

section \<open>Inputs used in the examples\<close>

text \<open>
  What \<open>Attribute('f0', 'numeric')\<close> and \<open>Attribute('phones', 'tier')\<close> construct, and the tier
  \<open>AnnotationType(n, None, None)\<close> for a name \<open>n\<close> that \<open>sanitize_name\<close> leaves unchanged.
\<close>

definition fresh_numeric :: attribute where
  "fresh_numeric = \<lparr>att_name = ''f0'', att_type = Numeric, att_display_name = None,
     att_default_value = PNum 0, att_range = RPair 0 0, att_delim = None\<rparr>"

definition fresh_tier :: attribute where
  "fresh_tier = \<lparr>att_name = ''phones'', att_type = Tier, att_display_name = None,
     att_default_value = PList [], att_range = RSet {}, att_delim = None\<rparr>"

definition plain_tier :: "string \<Rightarrow> 'a annotation_type" where
  "plain_tier n = \<lparr>characters = {}, ignored_characters = Some [], digraphs = [],
     trans_delimiter = None, morph_delimiters = [], number_behavior = None,
     annotations = [], name = n, subtype = None, supertype = None,
     token = False, base = False, anchor = False, speaker = None, ignored = False,
     output_name = n,
     attribute = \<lparr>att_name = n, att_type = Spelling, att_display_name = Some n,
       att_default_value = PStr [], att_range = RNone, att_delim = None\<rparr>\<rparr>"

text \<open>The number a value stands for in a numeric attribute: itself, or what \<open>float\<close> reads.\<close>

definition as_number :: "(string \<Rightarrow> real option) \<Rightarrow> pyval \<Rightarrow> real option" where
  "as_number pyfloat v = (case v of PNum x \<Rightarrow> Some x | PStr s \<Rightarrow> pyfloat s | _ \<Rightarrow> None)"

text \<open>
  A discourse of two speakers, each with a word tier and a base phone tier whose dict
  annotations carry cross-reference intervals, as \<open>collapse_speakers\<close> reads them.
\<close>

definition speaker_tier ::
  "string \<Rightarrow> string \<Rightarrow> string \<Rightarrow> bool \<Rightarrow> dict_annotation list \<Rightarrow> dict_annotation annotation_type" where
  "speaker_tier sp n out b anns =
     (plain_tier n)\<lparr>speaker := Some sp, output_name := out, base := b, anchor := \<not> b,
                    annotations := anns\<rparr>"

definition two_speakers :: "dict_annotation discourse_data" where
  "two_speakers = \<lparr>dd_name = ''d'',
     data = [(''A word'', speaker_tier ''A'' ''A word'' ''word'' False
                [[(''label'', Label ''cat''), (''A phone'', Interval 0 3)]]),
             (''A phone'', speaker_tier ''A'' ''A phone'' ''phone'' True
                [[(''label'', Label ''k'')], [(''label'', Label ''a'')], [(''label'', Label ''t'')]]),
             (''B word'', speaker_tier ''B'' ''B word'' ''word'' False
                [[(''label'', Label ''dog''), (''B phone'', Interval 0 3)]]),
             (''B phone'', speaker_tier ''B'' ''B phone'' ''phone'' True
                [[(''label'', Label ''d'')], [(''label'', Label ''o'')], [(''label'', Label ''g'')]])],
     wav_path = None\<rparr>"

text \<open>
  A corpus context after a timed import that contributed the type \<open>syllable\<close>, and an untimed
  discourse with a word tier and a phone tier below it.
\<close>

definition no_failures :: externals where
  "no_failures = \<lparr>data_to_graph_csvs = None, import_csvs = None,
     update_sql_database = None, add_acoustic_info = None\<rparr>"

definition timed_context :: corpus_context where
  "timed_context = \<lparr>relationship_types = {''syllable''}, is_timed = True,
     hierarchy = [''syllable'' \<mapsto> Some ''word'']\<rparr>"

definition untimed_discourse :: "element corpus_data" where
  "untimed_discourse = \<lparr>dd_name = ''d'',
     data = [(''word'', (plain_tier ''word'')\<lparr>anchor := True\<rparr>),
             (''phone'', (plain_tier ''phone'')\<lparr>base := True, supertype := Some ''word''\<rparr>)],
     wav_path = None, output_types = [''word'', ''phone''], data_is_timed = False\<rparr>"

section \<open>Notions used in the round-trip proof\<close>

text \<open>\<open>sep.join(xs)\<close>.\<close>

fun py_join :: "string \<Rightarrow> string list \<Rightarrow> string" where
  "py_join d [] = []"
| "py_join d [p] = p"
| "py_join d (p # q # qs) = p @ d @ py_join d (q # qs)"

text \<open>
  \<open>no_early d p\<close>: in \<open>p\<close> followed by the separator \<open>d\<close>, no occurrence of \<open>d\<close> starts inside
  \<open>p\<close>. \<open>pieces_ok d ps\<close>: the last piece does not contain \<open>d\<close>, every other piece is
  \<open>no_early\<close>. These are the lists that \<open>str.split\<close> returns.
\<close>

fun no_early :: "string \<Rightarrow> string \<Rightarrow> bool" where
  "no_early d [] = True"
| "no_early d (c # cs) = (\<not> prefix d (c # cs @ d) \<and> no_early d cs)"

fun pieces_ok :: "string \<Rightarrow> string list \<Rightarrow> bool" where
  "pieces_ok d [] = False"
| "pieces_ok d [p] = (\<not> str_contains d p)"
| "pieces_ok d (p # q # qs) = (no_early d p \<and> pieces_ok d (q # qs))"

text \<open>The string a tier tokenizes once its ignored characters are removed.\<close>

definition strip_ignored :: "('a, 'b) annotation_type_scheme \<Rightarrow> string \<Rightarrow> string" where
  "strip_ignored v s = (case ignored_characters v of
                          None \<Rightarrow> s
                        | Some ign \<Rightarrow> filter (\<lambda>x. [x] \<notin> set ign) s)"

text \<open>
  Tiers with a transcription delimiter: \<open>.\<close> and ignored character \<open>-\<close>; \<open>ab\<close> with the stress
  policy; \<open>-\<close> with the morpheme delimiter \<open>a-b\<close>.
\<close>

definition dotted_tier :: "unit annotation_type" where
  "dotted_tier = (plain_tier ''phones'')\<lparr>trans_delimiter := Some ''.'',
                                          ignored_characters := Some [''-'']\<rparr>"

definition stress_ab_tier :: "unit annotation_type" where
  "stress_ab_tier = (plain_tier ''phones'')\<lparr>trans_delimiter := Some ''ab'',
                                             number_behavior := Some ''stress''\<rparr>"

definition morph_tier :: "unit annotation_type" where
  "morph_tier = (plain_tier ''phones'')\<lparr>trans_delimiter := Some ''-'',
                                         morph_delimiters := [''a-b'']\<rparr>"

section \<open>Notions and inputs for process_order\<close>

text \<open>
  \<open>grounded items k\<close>: the tier named \<open>k\<close> is a word level, or it is not a base tier and its
  chain of supertypes leads, through tiers of \<open>items\<close> that are not base tiers, to a tier with
  no supertype or to a word level. For a supertype graph over the tiers that are not base
  tiers this says that the chain from \<open>k\<close> neither cycles nor dangles.
\<close>

inductive grounded :: "(string \<times> 'a annotation_type) list \<Rightarrow> string \<Rightarrow> bool"
  for items :: "(string \<times> 'a annotation_type) list" where
  word_level: "map_of items k = Some v \<Longrightarrow> is_word_anchor v \<Longrightarrow> grounded items k"
| root: "map_of items k = Some v \<Longrightarrow> \<not> base v \<Longrightarrow> supertype v = None \<Longrightarrow> grounded items k"
| child: "map_of items k = Some v \<Longrightarrow> \<not> base v \<Longrightarrow> supertype v = Some s
           \<Longrightarrow> grounded items s \<Longrightarrow> grounded items k"

text \<open>The keys of the tiers that are not base tiers, in the order of the dict.\<close>

definition non_base_keys :: "(string \<times> 'a annotation_type) list \<Rightarrow> string list" where
  "non_base_keys items = map fst (filter (\<lambda>kv. \<not> base (snd kv)) items)"

text \<open>
  A discourse with a word tier, a syllable tier below it, a morpheme tier with no
  supertype and a base phone tier; a 2-cycle; a tier whose supertype is a base tier; and a
  word tier that is also a base tier.
\<close>

definition forest_data :: "unit discourse_data" where
  "forest_data = \<lparr>dd_name = ''d'',
     data = [(''syllable'', (plain_tier ''syllable'')\<lparr>supertype := Some ''word''\<rparr>),
             (''phone'', (plain_tier ''phone'')\<lparr>base := True, supertype := Some ''syllable''\<rparr>),
             (''stressed'', (plain_tier ''stressed'')\<lparr>supertype := Some ''syllable''\<rparr>),
             (''word'', (plain_tier ''word'')\<lparr>anchor := True\<rparr>),
             (''morph'', plain_tier ''morph'')],
     wav_path = None\<rparr>"

definition two_cycle :: "unit discourse_data" where
  "two_cycle = \<lparr>dd_name = ''d'',
     data = [(''A'', (plain_tier ''A'')\<lparr>supertype := Some ''B''\<rparr>),
             (''B'', (plain_tier ''B'')\<lparr>supertype := Some ''A''\<rparr>)],
     wav_path = None\<rparr>"

definition below_base :: "unit discourse_data" where
  "below_base = \<lparr>dd_name = ''d'',
     data = [(''word'', (plain_tier ''word'')\<lparr>anchor := True\<rparr>),
             (''phone'', (plain_tier ''phone'')\<lparr>base := True, supertype := Some ''word''\<rparr>),
             (''feature'', (plain_tier ''feature'')\<lparr>supertype := Some ''phone''\<rparr>)],
     wav_path = None\<rparr>"

definition base_word :: "unit discourse_data" where
  "base_word = \<lparr>dd_name = ''d'',
     data = [(''word'', (plain_tier ''word'')\<lparr>anchor := True, base := True\<rparr>),
             (''line'', plain_tier ''line'')],
     wav_path = None\<rparr>"

section \<open>The constructors build the example inputs\<close>

lemma fresh_numeric_init: "Attribute_init ''f0'' Numeric None PNone = Inr fresh_numeric"
  by (simp add: Attribute_init_def fresh_numeric_def)

lemma fresh_tier_init: "Attribute_init ''phones'' Tier None PNone = Inr fresh_tier"
  by (simp add: Attribute_init_def fresh_tier_def)

lemma plain_tier_init:
  "sanitize_name lib n = n \<Longrightarrow> AnnotationType_init lib n None None [] = Inr (plain_tier n)"
  by (simp add: AnnotationType_init_def plain_tier_def Attribute_init_def kw_bool_def)

section \<open>Attribute.guess_type\<close>

text \<open>
  C8: \<open>guess_type\<close> is claimed to be a never-throwing function that returns the type with the
  highest count. In the source the \<open>return\<close> statement reads \<open>operator.itemgetter\<close>, and
  \<open>operator\<close> is not a name of the module: for every sample, every delimiter list and every
  behaviour of \<open>float\<close>, the call counts the sample and then raises \<open>NameError\<close>.
\<close>

theorem guess_type_raises_NameError:
  "guess_type pyfloat vals trans_delimiters = Inl NameError"
  by (simp add: guess_type_def lookup_global_def helper_globals_def Let_def)

section \<open>The default_value setter\<close>

text \<open>
  C10, as amended: for every attribute, whatever its type and range, and every value \<open>v\<close>,
  the setter stores \<open>v\<close> as default value. If \<open>v\<close> is hashable (\<open>None\<close>, a number, a string) it
  then replaces the range by the one-element set \<open>{v}\<close> and raises nothing. If \<open>v\<close> is
  unhashable (a list) it raises \<open>TypeError\<close> after \<open>v\<close> has been stored, and the range and every
  other field are left as they were.
\<close>

theorem default_value_setter_effect:
  "(hashable v \<longrightarrow>
      set_default_value a v = (a\<lparr>att_default_value := v, att_range := RSet {v}\<rparr>, None))
   \<and> (\<not> hashable v \<longrightarrow>
      set_default_value a v = (a\<lparr>att_default_value := v\<rparr>, Some TypeError)
      \<and> att_default_value (fst (set_default_value a v)) = v
      \<and> att_range (fst (set_default_value a v)) = att_range a)"
  by (simp add: set_default_value_def)

text \<open>
  The setter with the string \<open>abc\<close> on a fresh numeric attribute, whose range was the pair
  \<open>[0, 0]\<close>, and with the list \<open>[1]\<close> on a fresh tier attribute, whose default value was \<open>[]\<close> and
  whose range was the empty set: the list is stored, the range stays empty.
\<close>

theorem default_value_setter_effect_witness:
  "hashable (PStr ''abc'')
   \<and> att_range fresh_numeric = RPair 0 0
   \<and> att_range (fst (set_default_value fresh_numeric (PStr ''abc''))) = RSet {PStr ''abc''}
   \<and> att_default_value (fst (set_default_value fresh_numeric (PStr ''abc''))) = PStr ''abc''
   \<and> snd (set_default_value fresh_numeric (PStr ''abc'')) = None
   \<and> \<not> hashable (PList [PNum 1])
   \<and> att_default_value fresh_tier = PList []
   \<and> att_default_value (fst (set_default_value fresh_tier (PList [PNum 1]))) = PList [PNum 1]
   \<and> att_range (fst (set_default_value fresh_tier (PList [PNum 1]))) = RSet {}
   \<and> snd (set_default_value fresh_tier (PList [PNum 1])) = Some TypeError"
proof -
  have h: "hashable (PStr ''abc'')" and u: "\<not> hashable (PList [PNum 1])" by simp_all
  from default_value_setter_effect [of "PStr ''abc''" fresh_numeric] h
  have 1: "set_default_value fresh_numeric (PStr ''abc'')
      = (fresh_numeric\<lparr>att_default_value := PStr ''abc'', att_range := RSet {PStr ''abc''}\<rparr>, None)"
    by blast
  from default_value_setter_effect [of "PList [PNum 1]" fresh_tier] u
  have 2: "set_default_value fresh_tier (PList [PNum 1])
      = (fresh_tier\<lparr>att_default_value := PList [PNum 1]\<rparr>, Some TypeError)"
    and 3: "att_range (fst (set_default_value fresh_tier (PList [PNum 1]))) = att_range fresh_tier"
    by blast+
  have 4: "att_range fresh_numeric = RPair 0 0" "att_default_value fresh_tier = PList []"
    "att_range fresh_tier = RSet {}"
    by (simp_all add: fresh_numeric_def fresh_tier_def)
  from h u 1 2 3 4 show ?thesis by simp
qed

text \<open>
  C10 as stated fails for a list: on a fresh tier attribute (default value \<open>[]\<close>, range the
  empty set) assigning the list \<open>[1]\<close> stores it, raises \<open>TypeError\<close> in \<open>set([value])\<close> and
  leaves the range empty, not \<open>{[1]}\<close>.
\<close>

theorem default_value_setter_list_counterexample:
  "Attribute_init ''phones'' Tier None PNone = Inr fresh_tier
   \<and> set_default_value fresh_tier (PList [PNum 1])
       = (fresh_tier\<lparr>att_default_value := PList [PNum 1]\<rparr>, Some TypeError)
   \<and> fresh_tier\<lparr>att_default_value := PList [PNum 1]\<rparr> \<noteq> fresh_tier
   \<and> att_range (fst (set_default_value fresh_tier (PList [PNum 1]))) = RSet {}
   \<and> att_range (fst (set_default_value fresh_tier (PList [PNum 1]))) \<noteq> RSet {PList [PNum 1]}"
  by (simp add: Attribute_init_def fresh_tier_def set_default_value_def)

section \<open>parse_transcription raises\<close>

text \<open>
  C2: \<open>parse_transcription\<close> is claimed never to raise. With the stress policy and no
  delimiter, the string \<open>1\<close> is one token that is all digits: its label is empty after the
  digits are stripped, and \<open>final_string[-1]\<close> raises \<open>IndexError\<close> on the empty result list.
  With the empty string as transcription delimiter, \<open>str.split\<close> raises \<open>ValueError\<close> on
  every input.
\<close>

theorem parse_transcription_raises:
  "parse_transcription (Suc fuel) ''1'' ((plain_tier ''t'')\<lparr>number_behavior := Some ''stress''\<rparr>)
     = Inl IndexError \<and>
   parse_transcription (Suc fuel) s ((plain_tier ''t'')\<lparr>trans_delimiter := Some []\<rparr>)
     = Inl ValueError"
  by (simp add: plain_tier_def digraph_pattern_def parse_numbers_def findall.simps
      py_isdigit_def NUMBER_CHARACTERS_def py_split_def)

section \<open>data_to_discourse raises\<close>

text \<open>
  C5: the claim describes the positions of the word tokens \<open>data_to_discourse\<close> creates. The
  function's second statement calls \<open>Discourse\<close>, which \<^verbatim>\<open>helper.py\<close> neither imports nor
  defines: every call raises \<open>NameError\<close> before any token is created.
\<close>

theorem data_to_discourse_raises_NameError:
  "data_to_discourse d = Inl NameError"
  by (simp add: data_to_discourse_def lookup_global_def helper_globals_def Let_def)

section \<open>Attribute.update_range\<close>

lemma numeric_update_widen:
  assumes "att_range a = RPair lo hi" and "lo \<le> hi"
  shows "numeric_update a (PNum x) = Inr (a\<lparr>att_range := RPair (min lo x) (max hi x)\<rparr>)"
proof -
  consider "x < lo" | "lo \<le> x" "hi < x" | "lo \<le> x" "x \<le> hi" by linarith
  then show ?thesis
  proof cases
    case 1
    with assms show ?thesis by (simp add: numeric_update_def min_def max_def)
  next
    case 2
    with assms show ?thesis by (simp add: numeric_update_def min_def max_def)
  next
    case 3
    have "a\<lparr>att_range := att_range a\<rparr> = a" by simp
    with 3 assms show ?thesis by (simp add: numeric_update_def min_def max_def)
  qed
qed

lemma update_range_number:
  assumes "att_type a = Numeric" and "att_range a = RPair lo hi" and "lo \<le> hi"
    and "as_number pyfloat v = Some x"
  shows "update_range pyfloat a v = Inr (a\<lparr>att_range := RPair (min lo x) (max hi x)\<rparr>)"
  using assms numeric_update_widen [OF assms(2,3), of x]
  by (cases v) (auto simp: update_range_def as_number_def)

lemma update_ranges_numbers:
  assumes "att_type a = Numeric" and "att_range a = RPair lo hi" and "lo \<le> hi"
    and "map (as_number pyfloat) vs = map Some xs"
  shows "update_ranges pyfloat a vs
           = Inr (a\<lparr>att_range := RPair (fold min xs lo) (fold max xs hi)\<rparr>)"
  using assms
proof (induction vs arbitrary: a lo hi xs)
  case Nil
  have "a\<lparr>att_range := att_range a\<rparr> = a" by simp
  with Nil show ?case by simp
next
  case (Cons v vs)
  then obtain x xs' where xs: "xs = x # xs'" and v: "as_number pyfloat v = Some x"
    and rest: "map (as_number pyfloat) vs = map Some xs'"
    by (cases xs) auto
  let ?a = "a\<lparr>att_range := RPair (min lo x) (max hi x)\<rparr>"
  have step: "update_range pyfloat a v = Inr ?a"
    using Cons.prems(1-3) v by (rule update_range_number)
  have "update_ranges pyfloat ?a vs
          = Inr (?a\<lparr>att_range := RPair (fold min xs' (min lo x)) (fold max xs' (max hi x))\<rparr>)"
    using Cons.prems(1,3) rest by (intro Cons.IH) (auto simp: min_def max_def)
  then show ?case using step xs by (simp add: min.commute max.commute)
qed

lemma fold_min_Min: "xs \<noteq> [] \<Longrightarrow> fold min xs (lo::real) = min lo (Min (set xs))"
proof (induction xs arbitrary: lo)
  case Nil
  then show ?case by simp
next
  case (Cons x xs)
  show ?case
  proof (cases "xs = []")
    case True
    then show ?thesis by (simp add: min.commute)
  next
    case False
    with Cons.IH [of "min x lo"] show ?thesis
      by (simp add: min.assoc min.commute min.left_commute)
  qed
qed

lemma fold_max_Max: "xs \<noteq> [] \<Longrightarrow> fold max xs (hi::real) = max hi (Max (set xs))"
proof (induction xs arbitrary: hi)
  case Nil
  then show ?case by simp
next
  case (Cons x xs)
  show ?case
  proof (cases "xs = []")
    case True
    then show ?thesis by (simp add: max.commute)
  next
    case False
    with Cons.IH [of "max x hi"] show ?thesis
      by (simp add: max.assoc max.commute max.left_commute)
  qed
qed

lemma spelling_fixed: "att_type a = Spelling \<Longrightarrow> update_ranges pyfloat a ws = Inr a"
  by (induction ws) (auto simp: update_range_def)

text \<open>
  C4, as amended: for a numeric attribute whose range is a pair \<open>[lo, hi]\<close> with \<open>lo \<le> hi\<close>
  (a fresh one has \<open>[0, 0]\<close>) and a non-empty sequence of numeric values (numbers, or strings
  \<open>float\<close> reads), \<open>update_range\<close> applied to each value in order leaves the type numeric and
  the range \<open>[min(lo, m), max(hi, M)]\<close>, \<open>m\<close> and \<open>M\<close> the least and the greatest value: the
  range widens from what it was. One string that \<open>float\<close> rejects then makes the attribute
  spelling-typed with range \<open>None\<close>, and every later sequence of \<open>update_range\<close> calls,
  whatever the values, leaves that attribute as it is.
\<close>

theorem update_range_widens_then_downgrades:
  assumes "att_type a = Numeric" and "att_range a = RPair lo hi" and "lo \<le> hi"
    and "vs \<noteq> []" and "map (as_number pyfloat) vs = map Some xs"
    and "pyfloat s = None"
  shows "\<exists>a1 a2. update_ranges pyfloat a vs = Inr a1
           \<and> att_type a1 = Numeric
           \<and> att_range a1 = RPair (min lo (Min (set xs))) (max hi (Max (set xs)))
           \<and> update_range pyfloat a1 (PStr s) = Inr a2
           \<and> att_type a2 = Spelling \<and> att_range a2 = RNone
           \<and> (\<forall>ws. update_ranges pyfloat a2 ws = Inr a2)"
proof -
  from assms(4,5) have ne: "xs \<noteq> []" by auto
  let ?a1 = "a\<lparr>att_range := RPair (min lo (Min (set xs))) (max hi (Max (set xs)))\<rparr>"
  let ?a2 = "?a1\<lparr>att_type := Spelling, att_range := RNone\<rparr>"
  have run: "update_ranges pyfloat a vs = Inr ?a1"
    using update_ranges_numbers [OF assms(1,2,3,5)] ne
    by (simp add: fold_min_Min fold_max_Max)
  have down: "update_range pyfloat ?a1 (PStr s) = Inr ?a2"
    using assms(1,6) by (simp add: update_range_def)
  have fixed: "\<forall>ws. update_ranges pyfloat ?a2 ws = Inr ?a2"
    by (simp add: spelling_fixed)
  from run down fixed assms(1) show ?thesis
    by (intro exI [of _ ?a1] exI [of _ ?a2]) simp
qed

text \<open>
  A fresh numeric attribute updated with \<open>5\<close> and the string \<open>7\<close>, then with the string \<open>x\<close>:
  the range is \<open>[0, 7]\<close>, then the attribute is spelling-typed for good.
\<close>

theorem update_range_widens_then_downgrades_witness:
  "\<exists>a1 a2. update_ranges [''7'' \<mapsto> 7] fresh_numeric [PNum 5, PStr ''7''] = Inr a1
     \<and> att_type a1 = Numeric \<and> att_range a1 = RPair 0 7
     \<and> update_range [''7'' \<mapsto> 7] a1 (PStr ''x'') = Inr a2
     \<and> att_type a2 = Spelling \<and> att_range a2 = RNone
     \<and> (\<forall>ws. update_ranges [''7'' \<mapsto> 7] a2 ws = Inr a2)"
  using update_range_widens_then_downgrades
    [of fresh_numeric 0 0 "[PNum 5, PStr ''7'']" "[''7'' \<mapsto> 7]" "[5, 7]" "''x''"]
  by (simp add: fresh_numeric_def as_number_def)

text \<open>
  C4 as stated fails on a fresh numeric attribute: after the single value \<open>5\<close> its range is
  \<open>[0, 5]\<close>, not \<open>(5, 5)\<close>, the minimum and maximum of the sequence.
\<close>

theorem update_range_min_counterexample:
  "Attribute_init ''f0'' Numeric None PNone = Inr fresh_numeric \<and>
   update_ranges Map.empty fresh_numeric [PNum 5] = Inr (fresh_numeric\<lparr>att_range := RPair 0 5\<rparr>) \<and>
   RPair 0 5 \<noteq> RPair (Min (set [5])) (Max (set [5]))"
  by (simp add: Attribute_init_def fresh_numeric_def update_range_def numeric_update_def)

section \<open>collapse_speakers\<close>

lemma create_merged_raises:
  "create_merged lib dat v nd = Inl TypeError \<or> create_merged lib dat v nd = Inl KeyError"
  by (simp add: create_merged_def merged_name_def AnnotationType_init_def init_parameters_def
      split: option.splits sum.splits)

lemma collapse_step_first:
  assumes "map_of dat k = Some v"
  shows "collapse_step lib dat k ([], sh) = Inl TypeError \<or>
         collapse_step lib dat k ([], sh) = Inl KeyError"
  using assms create_merged_raises [of lib dat v "[]"]
  by (auto simp: collapse_step_def)

lemma map_filter_set: "set (List.map_filter f xs) = {y. \<exists>x \<in> set xs. f x = Some y}"
proof (induction xs)
  case Nil
  then show ?case by (simp add: map_filter_simps)
next
  case (Cons x xs)
  then show ?case by (cases "f x") (auto simp: map_filter_simps)
qed

lemma speakers_of_set:
  "set (speakers_of d) = {s. \<exists>kv \<in> set (data d). speaker (snd kv) = Some s}"
  by (simp add: speakers_of_def map_filter_set)

lemma speaker_keys_set:
  "set (speaker_keys d s) = fst ` {kv \<in> set (data d). speaker (snd kv) = Some s}"
proof -
  have "{kv \<in> set (data d). speaker (snd kv) = Some s \<and> \<not> base (snd kv)} \<union>
        {kv \<in> set (data d). speaker (snd kv) = Some s \<and> base (snd kv)}
        = {kv \<in> set (data d). speaker (snd kv) = Some s}"
    by blast
  then show ?thesis
    by (simp add: speaker_keys_def image_Un [symmetric])
qed

lemma merge_keys_member:
  assumes "kv \<in> set (data d)" and "speaker (snd kv) = Some s"
  shows "fst kv \<in> set (merge_keys d)"
proof -
  from assms have "s \<in> set (speakers_of d)" unfolding speakers_of_set by blast
  moreover from assms have "fst kv \<in> set (speaker_keys d s)" unfolding speaker_keys_set by blast
  ultimately show ?thesis unfolding merge_keys_def by auto
qed

lemma merge_keys_are_keys:
  assumes "k \<in> set (merge_keys d)"
  shows "k \<in> fst ` set (data d)"
proof -
  from assms obtain s where "k \<in> set (speaker_keys d s)"
    unfolding merge_keys_def by auto
  then show ?thesis unfolding speaker_keys_set by blast
qed

text \<open>
  C1: the claim says that \<open>collapse_speakers\<close> merges the speakers' tiers, preserving segment
  counts and keeping every shifted interval in bounds. In the source the first tier of the
  merge order finds \<open>newdata\<close> empty and creates its destination tier by calling
  \<open>AnnotationType(..., delimited = v.delimited)\<close>; \<open>delimited\<close> is not a parameter of the
  constructor. So for every discourse in which some tier has a speaker the call raises:
  \<open>TypeError\<close> from the constructor, or \<open>KeyError\<close> before it when that tier's subtype or
  supertype names no tier. Nothing is merged.
\<close>

theorem collapse_speakers_raises:
  assumes "list_ex (\<lambda>kv. speaker (snd kv) \<noteq> None) (data d)"
  shows "collapse_speakers lib d = Inl TypeError \<or> collapse_speakers lib d = Inl KeyError"
proof -
  from assms obtain kv s where "kv \<in> set (data d)" "speaker (snd kv) = Some s"
    by (auto simp: list_ex_iff)
  then have "fst kv \<in> set (merge_keys d)" by (rule merge_keys_member)
  then obtain k ks where keys: "merge_keys d = k # ks"
    by (cases "merge_keys d") auto
  then have "k \<in> set (merge_keys d)" by simp
  then have "k \<in> fst ` set (data d)" by (rule merge_keys_are_keys)
  then have "map_of (data d) k \<noteq> None" by (simp add: map_of_eq_None_iff)
  then obtain v where v: "map_of (data d) k = Some v" by blast
  have "fold_err (collapse_step lib (data d)) (merge_keys d) ([], initial_shifts d)
          = Inl TypeError \<or>
        fold_err (collapse_step lib (data d)) (merge_keys d) ([], initial_shifts d)
          = Inl KeyError"
    using collapse_step_first [OF v, of lib "initial_shifts d"] unfolding keys by auto
  then show ?thesis unfolding collapse_speakers_def by auto
qed

text \<open>The two-speaker discourse: the call raises \<open>TypeError\<close> at the first tier, \<open>A word\<close>.\<close>

theorem collapse_speakers_raises_witness:
  "list_ex (\<lambda>kv. speaker (snd kv) \<noteq> None) (data two_speakers) \<and>
   merge_keys two_speakers = [''A word'', ''A phone'', ''B word'', ''B phone''] \<and>
   (\<forall>lib. collapse_speakers lib two_speakers = Inl TypeError)"
proof -
  have 1: "list_ex (\<lambda>kv. speaker (snd kv) \<noteq> None) (data two_speakers)"
    by (simp add: two_speakers_def speaker_tier_def)
  have 2: "merge_keys two_speakers = [''A word'', ''A phone'', ''B word'', ''B phone'']"
    by (simp add: merge_keys_def speakers_of_def speaker_keys_def two_speakers_def
        speaker_tier_def plain_tier_def map_filter_def)
  have 3: "collapse_step lib (data two_speakers) ''A word'' ([], initial_shifts two_speakers)
             = Inl TypeError" for lib
    by (simp add: collapse_step_def create_merged_def merged_name_def AnnotationType_init_def
        init_parameters_def two_speakers_def speaker_tier_def plain_tier_def)
  have "collapse_speakers lib two_speakers \<noteq> Inl KeyError" for lib
    by (simp add: collapse_speakers_def 2 3)
  with collapse_speakers_raises [OF 1] 1 2 show ?thesis by blast
qed

section \<open>CorpusContext.add_discourse\<close>

lemma hierarchy_item_dom:
  "hierarchy_item d x h = Inr h' \<Longrightarrow> dom h' = insert x (dom h)"
  by (auto simp: hierarchy_item_def split: if_splits list.splits sum.splits option.splits)

lemma hierarchy_fold_dom:
  "fold_err (hierarchy_item d) xs h = Inr h' \<Longrightarrow> dom h' = dom h \<union> set xs"
proof (induction xs arbitrary: h)
  case Nil
  then show ?case by simp
next
  case (Cons x xs)
  then obtain h1 where h1: "hierarchy_item d x h = Inr h1"
    and rest: "fold_err (hierarchy_item d) xs h1 = Inr h'"
    by (auto split: sum.splits)
  from Cons.IH [OF rest] hierarchy_item_dom [OF h1] show ?case by auto
qed

text \<open>
  C9: when \<open>add_discourse\<close> completes, \<open>relationship_types\<close> is its previous value united
  with the discourse's output types; \<open>is_timed\<close> is the discourse's timed flag, whatever it
  was before; and \<open>hierarchy\<close> is the mapping built from this discourse alone (it does not
  depend on the previous hierarchy), with exactly the discourse's output types as keys.
\<close>

theorem add_discourse_fields:
  assumes "add_discourse ext ctx d = Inr ctx'"
  shows "relationship_types ctx' = relationship_types ctx \<union> set (output_types d)
       \<and> is_timed ctx' = data_is_timed d
       \<and> build_hierarchy d = Inr (hierarchy ctx')
       \<and> dom (hierarchy ctx') = set (output_types d)"
proof -
  from assms obtain h where h: "build_hierarchy d = Inr h"
    and c: "ctx' = ctx\<lparr>relationship_types := relationship_types ctx \<union> set (output_types d),
                       is_timed := data_is_timed d, hierarchy := h\<rparr>"
    by (auto simp: add_discourse_def Let_def split: option.splits sum.splits if_splits)
  from h have "dom h = set (output_types d)"
    using hierarchy_fold_dom [of d "output_types d" Map.empty h] by (simp add: build_hierarchy_def)
  with h c show ?thesis by simp
qed

text \<open>
  An untimed discourse added to a context that was timed and knew the type \<open>syllable\<close>: the
  type set grows, the timed flag is reset, the hierarchy entry of \<open>syllable\<close> is gone.
\<close>

theorem add_discourse_fields_witness:
  "\<exists>c. add_discourse no_failures timed_context untimed_discourse = Inr c
     \<and> relationship_types c = {''syllable''} \<union> {''word'', ''phone''}
     \<and> is_timed timed_context \<and> \<not> is_timed c
     \<and> hierarchy timed_context ''syllable'' = Some (Some ''word'')
     \<and> hierarchy c = [''word'' \<mapsto> None, ''phone'' \<mapsto> Some ''word'']
     \<and> dom (hierarchy c) = set [''word'', ''phone'']"
proof -
  have h: "build_hierarchy untimed_discourse = Inr [''word'' \<mapsto> None, ''phone'' \<mapsto> Some ''word'']"
    by (simp add: build_hierarchy_def hierarchy_item_def untimed_discourse_def word_levels_def
        is_word_anchor_def plain_tier_def lookup_key_def)
  have ot: "output_types untimed_discourse = [''word'', ''phone'']"
    and ti: "data_is_timed untimed_discourse = False"
    by (simp_all add: untimed_discourse_def)
  have "\<exists>c. add_discourse no_failures timed_context untimed_discourse = Inr c"
    by (simp add: add_discourse_def no_failures_def h Let_def)
  then obtain c where c: "add_discourse no_failures timed_context untimed_discourse = Inr c" ..
  note f = add_discourse_fields [OF c]
  from f have 1: "relationship_types c = {''syllable''} \<union> {''word'', ''phone''}"
    by (simp add: ot timed_context_def)
  from f have 2: "\<not> is_timed c" by (simp add: ti)
  from f h have 3: "hierarchy c = [''word'' \<mapsto> None, ''phone'' \<mapsto> Some ''word'']" by simp
  from f have 4: "dom (hierarchy c) = set [''word'', ''phone'']" by (simp only: ot)
  have 5: "is_timed timed_context" "hierarchy timed_context ''syllable'' = Some (Some ''word'')"
    by (simp_all add: timed_context_def)
  from c 1 2 3 4 5 show ?thesis by blast
qed

section \<open>Digraph tokenization\<close>









section \<open>Round trip of delimiter-based tokenization\<close>

lemma str_split_nonempty: "str_split d s \<noteq> []"
  by (induction d s rule: str_split.induct) (auto split: list.splits)

lemma py_join_Cons_Cons: "py_join d ((c # p) # ps) = c # py_join d (p # ps)"
  by (cases ps) auto

lemma prefix_drop_rest:
  assumes "d \<noteq> []" and "prefix d (c # cs)"
  shows "d @ drop (length d - 1) cs = c # cs"
proof -
  from assms obtain zs where zs: "c # cs = d @ zs" by (auto simp: prefix_def)
  with assms(1) obtain d' where d': "d = c # d'" by (cases d) auto
  with zs have "cs = d' @ zs" by simp
  with d' zs show ?thesis by simp
qed

lemma join_split: "d \<noteq> [] \<Longrightarrow> py_join d (str_split d s) = s"
proof (induction d s rule: str_split.induct)
  case (1 sep)
  show ?case by simp
next
  case (2 sep c cs)
  show ?case
  proof (cases "prefix sep (c # cs)")
    case True
    obtain q qs where q: "str_split sep (drop (length sep - 1) cs) = q # qs"
      using str_split_nonempty by (cases "str_split sep (drop (length sep - 1) cs)") auto
    from 2(1) [OF True 2(3)] q have "py_join sep (q # qs) = drop (length sep - 1) cs" by simp
    with True q have "py_join sep (str_split sep (c # cs)) = sep @ drop (length sep - 1) cs"
      by simp
    also have "\<dots> = c # cs" using 2(3) True by (rule prefix_drop_rest)
    finally show ?thesis .
  next
    case False
    obtain p ps where p: "str_split sep cs = p # ps"
      using str_split_nonempty by (cases "str_split sep cs") auto
    from 2(2) [OF False 2(3)] p have "py_join sep (p # ps) = cs" by simp
    with False p show ?thesis by (simp add: py_join_Cons_Cons)
  qed
qed

lemma prefix_within:
  assumes "prefix d (xs @ ys)" and "length d \<le> length xs"
  shows "prefix d xs"
  using assms by (auto simp: prefix_append)

lemma split_no_early:
  "d \<noteq> [] \<Longrightarrow> no_early d p \<Longrightarrow> str_split d (p @ d @ rest) = p # str_split d rest"
proof (induction p)
  case Nil
  then obtain c d' where d: "d = c # d'" by (cases d) auto
  then show ?case by simp
next
  case (Cons a p)
  from Cons.prems have ne: "\<not> prefix d (a # p @ d)" and rest: "no_early d p" by simp_all
  have "\<not> prefix d (a # p @ d @ rest)"
  proof
    assume "prefix d (a # p @ d @ rest)"
    then have "prefix d ((a # p @ d) @ rest)" by simp
    then have "prefix d (a # p @ d)" by (rule prefix_within) simp
    with ne show False ..
  qed
  with Cons.IH [OF Cons.prems(1) rest] show ?case by simp
qed

lemma split_sep_free:
  "d \<noteq> [] \<Longrightarrow> \<not> str_contains d p \<Longrightarrow> str_split d p = [p]"
  by (induction p) auto

lemma no_early_sep_free: "d \<noteq> [] \<Longrightarrow> no_early d p \<Longrightarrow> \<not> str_contains d p"
proof (induction p)
  case Nil
  then show ?case by simp
next
  case (Cons c p)
  then have "\<not> prefix d (c # p @ d)" and "\<not> str_contains d p" by simp_all
  moreover have "prefix d (c # p) \<Longrightarrow> prefix d (c # p @ d)"
    using prefix_prefix [of d "c # p" d] by simp
  ultimately show ?case by auto
qed

lemma split_pieces_ok: "d \<noteq> [] \<Longrightarrow> pieces_ok d (str_split d s)"
proof (induction d s rule: str_split.induct)
  case (1 sep)
  then show ?case by simp
next
  case (2 sep c cs)
  show ?case
  proof (cases "prefix sep (c # cs)")
    case True
    obtain q qs where q: "str_split sep (drop (length sep - 1) cs) = q # qs"
      using str_split_nonempty by (cases "str_split sep (drop (length sep - 1) cs)") auto
    with 2(1) [OF True 2(3)] True show ?thesis by simp
  next
    case False
    obtain p ps where p: "str_split sep cs = p # ps"
      using str_split_nonempty by (cases "str_split sep cs") auto
    from 2(2) [OF False 2(3)] p have ok: "pieces_ok sep (p # ps)" by simp
    from join_split [OF 2(3), of cs] p have cs: "py_join sep (p # ps) = cs" by simp
    show ?thesis
    proof (cases ps)
      case Nil
      with cs have "cs = p" by simp
      with False ok Nil p show ?thesis by simp
    next
      case (Cons q qs)
      with cs have cs': "cs = p @ sep @ py_join sep (q # qs)" by simp
      have "\<not> prefix sep (c # p @ sep)"
      proof
        assume "prefix sep (c # p @ sep)"
        then have "prefix sep ((c # p @ sep) @ py_join sep (q # qs))" by (rule prefix_prefix)
        with False cs' show False by simp
      qed
      with False ok Cons p show ?thesis by simp
    qed
  qed
qed

lemma filter_pieces_ok:
  "d \<noteq> [] \<Longrightarrow> pieces_ok d ps \<Longrightarrow> filter P ps \<noteq> [] \<Longrightarrow> pieces_ok d (filter P ps)"
proof (induction d ps rule: pieces_ok.induct)
  case (1 d)
  then show ?case by simp
next
  case (2 d p)
  then show ?case by (cases "P p") simp_all
next
  case (3 d p q qs)
  from 3(3) have ne: "no_early d p" and ok: "pieces_ok d (q # qs)" by simp_all
  show ?case
  proof (cases "filter P (q # qs)")
    case Nil
    with 3(4) have "filter P (p # q # qs) = [p]" by (cases "P p") simp_all
    with no_early_sep_free [OF 3(2) ne] show ?thesis by simp
  next
    case (Cons r rs)
    with 3(1) [OF 3(2) ok] have "pieces_ok d (r # rs)" by simp
    with ne Cons show ?thesis by (cases "P p") simp_all
  qed
qed

lemma split_join_pieces: "d \<noteq> [] \<Longrightarrow> pieces_ok d ps \<Longrightarrow> str_split d (py_join d ps) = ps"
proof (induction d ps rule: pieces_ok.induct)
  case (1 d)
  then show ?case by simp
next
  case (2 d p)
  then show ?case by (simp add: split_sep_free)
next
  case (3 d p q qs)
  then show ?case by (simp add: split_no_early)
qed

lemma split_join_split:
  assumes "d \<noteq> []"
  shows "filter (\<lambda>p. p \<noteq> []) (str_split d (py_join d (filter (\<lambda>p. p \<noteq> []) (str_split d t))))
           = filter (\<lambda>p. p \<noteq> []) (str_split d t)"
proof (cases "filter (\<lambda>p. p \<noteq> []) (str_split d t) = []")
  case True
  then show ?thesis by simp
next
  case False
  from filter_pieces_ok [OF assms split_pieces_ok [OF assms] False]
  have "pieces_ok d (filter (\<lambda>p. p \<noteq> []) (str_split d t))" .
  from split_join_pieces [OF assms this] show ?thesis by simp
qed

lemma number_loop_no_policy:
  assumes "nb \<noteq> Some ''stress''" and "nb \<noteq> Some ''tone''"
  shows "number_loop nb segs acc = Inr (acc @ map BaseAnnotation (filter (\<lambda>p. p \<noteq> []) segs))"
proof (induction segs arbitrary: acc)
  case Nil
  show ?case by simp
next
  case (Cons seg segs)
  show ?case
  proof (cases nb)
    case None
    with Cons show ?thesis by simp
  next
    case (Some b)
    with assms have "b \<noteq> ''stress''" and "b \<noteq> ''tone''" by simp_all
    with Some Cons show ?thesis by (simp add: Let_def)
  qed
qed

lemma parse_delimited:
  assumes "trans_delimiter v = Some d" and "d \<noteq> []" and "morph_delimiters v = []"
    and "number_behavior v \<noteq> Some ''stress''" and "number_behavior v \<noteq> Some ''tone''"
  shows "parse_transcription (Suc fuel) s v
           = Inr (map BaseAnnotation (filter (\<lambda>p. p \<noteq> []) (str_split d (strip_ignored v s))))"
proof -
  have "parse_transcription (Suc fuel) s v
          = number_loop (number_behavior v) (str_split d (strip_ignored v s)) []"
    using assms(1-3) by (simp add: py_split_def strip_ignored_def split: option.splits)
  with number_loop_no_policy [OF assms(4,5)] show ?thesis by simp
qed

lemma label_BaseAnnotation: "map label (map BaseAnnotation ps) = ps"
  by (induction ps) (simp_all add: BaseAnnotation_def)

lemma str_contains_chars: "str_contains d t \<Longrightarrow> set d \<subseteq> set t"
proof (induction t)
  case Nil
  then show ?case by simp
next
  case (Cons c t)
  from Cons.prems have "prefix d (c # t) \<or> str_contains d t" by simp
  then show ?case
  proof
    assume "prefix d (c # t)"
    then show ?thesis by (rule set_mono_prefix)
  next
    assume "str_contains d t"
    with Cons.IH have "set d \<subseteq> set t" .
    then show ?thesis by auto
  qed
qed

lemma py_join_chars: "set (py_join d ps) \<subseteq> set d \<union> \<Union> (set ` set ps)"
  by (induction d ps rule: py_join.induct) auto

lemma pieces_chars: "p \<in> set ps \<Longrightarrow> set p \<subseteq> set (py_join d ps)"
  by (induction d ps rule: py_join.induct) auto

lemma py_join_mem:
  "x \<in> set (py_join d ps) \<Longrightarrow> x \<in> set d \<or> (\<exists>p \<in> set ps. x \<in> set p)"
  using py_join_chars [of d ps] by blast

lemma filter_join_keep:
  assumes "d \<noteq> []" and "\<forall>x \<in> set d. keep x"
  shows "filter keep (py_join d (filter (\<lambda>p. p \<noteq> []) (str_split d (filter keep s))))
           = py_join d (filter (\<lambda>p. p \<noteq> []) (str_split d (filter keep s)))"
proof -
  define t where "t = filter keep s"
  define L where "L = filter (\<lambda>p. p \<noteq> []) (str_split d t)"
  have t_keep: "keep x" if "x \<in> set t" for x using that by (simp add: t_def)
  have "keep x" if "x \<in> set (py_join d L)" for x
  proof -
    from py_join_mem [OF that] show ?thesis
    proof
      assume "x \<in> set d"
      with assms(2) show ?thesis by blast
    next
      assume "\<exists>p \<in> set L. x \<in> set p"
      then obtain p where p: "p \<in> set L" and x: "x \<in> set p" by blast
      from p have "p \<in> set (str_split d t)" by (simp add: L_def)
      then have "set p \<subseteq> set (py_join d (str_split d t))" by (rule pieces_chars)
      then have "set p \<subseteq> set t" by (simp only: join_split [OF assms(1)])
      with x have "x \<in> set t" by blast
      then show ?thesis by (rule t_keep)
    qed
  qed
  then have "filter keep (py_join d L) = py_join d L" by (simp add: filter_id_conv)
  then show ?thesis by (simp only: L_def t_def)
qed

lemma join_not_keep:
  assumes "d \<noteq> []" and "x \<in> set d" and "\<not> keep x"
  shows "py_join d (filter (\<lambda>p. p \<noteq> []) (str_split d (filter keep s))) = filter keep s"
proof -
  define t where "t = filter keep s"
  from assms(3) have "x \<notin> set t" by (simp add: t_def)
  with assms(2) have "\<not> set d \<subseteq> set t" by blast
  with str_contains_chars have "\<not> str_contains d t" by blast
  with assms(1) have "str_split d t = [t]" by (rule split_sep_free)
  then have "py_join d (filter (\<lambda>p. p \<noteq> []) (str_split d t)) = t"
    by (cases "t = []") simp_all
  then show ?thesis by (simp only: t_def)
qed

lemma strip_ignored_join:
  assumes "d \<noteq> []"
  shows "filter (\<lambda>p. p \<noteq> [])
           (str_split d (strip_ignored v
              (py_join d (filter (\<lambda>p. p \<noteq> []) (str_split d (strip_ignored v s))))))
         = filter (\<lambda>p. p \<noteq> []) (str_split d (strip_ignored v s))"
proof (cases "ignored_characters v")
  case None
  then have "strip_ignored v = (\<lambda>s. s)" by (simp add: strip_ignored_def fun_eq_iff)
  with split_join_split [OF assms] show ?thesis by simp
next
  case (Some ign)
  define keep where "keep = (\<lambda>x :: char. [x] \<notin> set ign)"
  have strip: "strip_ignored v = filter keep"
    using Some by (simp add: strip_ignored_def keep_def fun_eq_iff)
  show ?thesis
  proof (cases "\<forall>x \<in> set d. keep x")
    case True
    from filter_join_keep [OF assms True, of s] split_join_split [OF assms, of "filter keep s"]
    show ?thesis by (simp only: strip)
  next
    case False
    then obtain x where x: "x \<in> set d" "\<not> keep x" by blast
    have "py_join d (filter (\<lambda>p. p \<noteq> []) (str_split d (filter keep s))) = filter keep s"
      using assms x by (rule join_not_keep [where x = x and keep = keep])
    then show ?thesis
      by (simp only: strip filter_filter) simp
  qed
qed

text \<open>
  C6, as amended: for every tier with a non-empty transcription delimiter, no morpheme
  delimiters and no numeric-suffix policy (neither stress nor tone), whatever its ignored
  characters, and for every input string, \<open>parse_transcription\<close> returns a segment sequence,
  and tokenizing the labels of that sequence joined with the delimiter returns the same
  sequence.
\<close>

theorem parse_transcription_round_trip:
  assumes "trans_delimiter v = Some d" and "d \<noteq> []" and "morph_delimiters v = []"
    and "number_behavior v \<noteq> Some ''stress''" and "number_behavior v \<noteq> Some ''tone''"
  shows "\<exists>segs. parse_transcription (Suc fuel) s v = Inr segs
           \<and> parse_transcription (Suc fuel) (py_join d (map label segs)) v = Inr segs"
proof -
  let ?L = "filter (\<lambda>p. p \<noteq> []) (str_split d (strip_ignored v s))"
  have 1: "parse_transcription (Suc fuel) s v = Inr (map BaseAnnotation ?L)"
    using assms by (rule parse_delimited)
  have "parse_transcription (Suc fuel) (py_join d ?L) v
          = Inr (map BaseAnnotation (filter (\<lambda>p. p \<noteq> [])
                   (str_split d (strip_ignored v (py_join d ?L)))))"
    using assms by (rule parse_delimited)
  also have "\<dots> = Inr (map BaseAnnotation ?L)"
    by (simp only: strip_ignored_join [OF assms(2)])
  finally have 2: "parse_transcription (Suc fuel) (py_join d (map label (map BaseAnnotation ?L))) v
      = Inr (map BaseAnnotation ?L)"
    by (simp only: label_BaseAnnotation)
  from 1 2 show ?thesis by blast
qed

text \<open>
  The tier with delimiter \<open>.\<close> that ignores \<open>-\<close>, on \<open>k-a..t.\<close>: the labels are \<open>ka\<close> and \<open>t\<close>,
  joined \<open>ka.t\<close>, which tokenizes into the same two segments.
\<close>

theorem parse_transcription_round_trip_witness:
  "trans_delimiter dotted_tier = Some ''.''
   \<and> (\<exists>segs. parse_transcription (Suc 0) ''k-a..t.'' dotted_tier = Inr segs
         \<and> map label segs = [''ka'', ''t'']
         \<and> py_join ''.'' (map label segs) = ''ka.t''
         \<and> parse_transcription (Suc 0) (py_join ''.'' (map label segs)) dotted_tier = Inr segs)"
proof -
  have h: "trans_delimiter dotted_tier = Some ''.''" "''.'' \<noteq> []"
    "morph_delimiters dotted_tier = []"
    "number_behavior dotted_tier \<noteq> Some ''stress''" "number_behavior dotted_tier \<noteq> Some ''tone''"
    by (simp_all add: dotted_tier_def plain_tier_def)
  from parse_transcription_round_trip [OF h, of 0 "''k-a..t.''"]
  obtain segs where s1: "parse_transcription (Suc 0) ''k-a..t.'' dotted_tier = Inr segs"
    and s2: "parse_transcription (Suc 0) (py_join ''.'' (map label segs)) dotted_tier = Inr segs"
    by blast
  have "parse_transcription (Suc 0) ''k-a..t.'' dotted_tier
          = Inr [BaseAnnotation ''ka'', BaseAnnotation ''t'']"
    by (simp add: dotted_tier_def plain_tier_def py_split_def)
  with s1 have "segs = [BaseAnnotation ''ka'', BaseAnnotation ''t'']" by simp
  then have ml: "map label segs = [''ka'', ''t'']" by (simp add: BaseAnnotation_def)
  then have j: "py_join ''.'' (map label segs) = ''ka.t''" by simp
  show ?thesis
    by (intro conjI exI [of _ segs]) (rule h(1) s1 ml j s2)+
qed

text \<open>
  C6 as stated fails in two ways. With delimiter \<open>ab\<close> and the stress policy, \<open>a1b\<close> is one
  token whose label, once the digit is stripped, is the delimiter itself: the joined labels
  \<open>ab\<close> tokenize into nothing. With delimiter \<open>-\<close> and morpheme delimiter \<open>a-b\<close>, the string
  \<open>a--b\<close> has the labels \<open>a\<close> and \<open>b\<close>, whose join \<open>a-b\<close> is split as a morpheme boundary into
  two empty morphs.
\<close>

theorem parse_transcription_round_trip_counterexample:
  "map_sum id (map label) (parse_transcription (Suc (Suc 0)) ''a1b'' stress_ab_tier) = Inr [''ab'']
   \<and> py_join ''ab'' [''ab''] = ''ab''
   \<and> parse_transcription (Suc (Suc 0)) ''ab'' stress_ab_tier = Inr []
   \<and> map_sum id (map label) (parse_transcription (Suc (Suc 0)) ''a--b'' morph_tier)
       = Inr [''a'', ''b'']
   \<and> py_join ''-'' [''a'', ''b''] = ''a-b''
   \<and> parse_transcription (Suc (Suc 0)) ''a-b'' morph_tier = Inr []"
  by (simp add: stress_ab_tier_def morph_tier_def plain_tier_def py_split_def
      NUMBER_CHARACTERS_def setattr_number_def BaseAnnotation_def re_split_def
      literal_pattern_def regex_special_def enumerate_eq_zip)

section \<open>process_order\<close>

lemma process_pass_append:
  "\<exists>new. process_pass items order = order @ new \<and> distinct new \<and> set new \<inter> set order = {}
         \<and> set new \<subseteq> set (non_base_keys items)"
proof (induction items arbitrary: order)
  case Nil
  show ?case by (simp add: non_base_keys_def)
next
  case (Cons kv items)
  obtain k v where kv: "kv = (k, v)" by (cases kv)
  from Cons [of order] obtain new1 where 1: "process_pass items order = order @ new1"
    "distinct new1" "set new1 \<inter> set order = {}" "set new1 \<subseteq> set (non_base_keys items)" by blast
  from Cons [of "order @ [k]"] obtain new2 where 2: "process_pass items (order @ [k]) = (order @ [k]) @ new2"
    "distinct new2" "set new2 \<inter> set (order @ [k]) = {}" "set new2 \<subseteq> set (non_base_keys items)" by blast
  have sub: "set (non_base_keys items) \<subseteq> set (non_base_keys (kv # items))"
    by (auto simp: non_base_keys_def)
  show ?case
  proof (cases "process_pass (kv # items) order = process_pass items order")
    case True
    with 1 sub show ?thesis by auto
  next
    case False
    then have app: "process_pass (kv # items) order = process_pass items (order @ [k])"
      and k: "k \<notin> set order" and nb: "\<not> base v"
      unfolding kv by (auto split: if_splits option.splits)
    from nb have "k \<in> set (non_base_keys (kv # items))" by (simp add: kv non_base_keys_def)
    with 2 sub k app have "process_pass (kv # items) order = order @ (k # new2)
        \<and> distinct (k # new2) \<and> set (k # new2) \<inter> set order = {}
        \<and> set (k # new2) \<subseteq> set (non_base_keys (kv # items))" by auto
    then show ?thesis by blast
  qed
qed

lemma process_pass_mono: "set order \<subseteq> set (process_pass items order)"
  using process_pass_append [of items order] by auto

lemma process_pass_places:
  assumes "(k, v) \<in> set items" and "\<not> base v"
    and "supertype v = None \<or> (\<exists>s. supertype v = Some s \<and> s \<in> set order)"
  shows "k \<in> set (process_pass items order)"
  using assms
proof (induction items arbitrary: order)
  case Nil
  then show ?case by simp
next
  case (Cons kv items)
  obtain k0 v0 where kv: "kv = (k0, v0)" by (cases kv)
  show ?case
  proof (cases "kv = (k, v)")
    case True
    have "k \<in> set order \<or> process_pass (kv # items) order = process_pass items (order @ [k])"
      using Cons.prems(2,3) unfolding True by auto
    then show ?thesis
    proof
      assume "k \<in> set order"
      with process_pass_mono show ?thesis by blast
    next
      assume "process_pass (kv # items) order = process_pass items (order @ [k])"
      with process_pass_mono [of "order @ [k]" items] show ?thesis by auto
    qed
  next
    case False
    with Cons.prems(1) have mem: "(k, v) \<in> set items" by auto
    have "process_pass (kv # items) order = process_pass items order
        \<or> process_pass (kv # items) order = process_pass items (order @ [k0])"
      unfolding kv by (auto split: option.splits)
    then show ?thesis
    proof
      assume "process_pass (kv # items) order = process_pass items order"
      with Cons.IH [OF mem Cons.prems(2,3)] show ?thesis by simp
    next
      assume e: "process_pass (kv # items) order = process_pass items (order @ [k0])"
      from Cons.prems(3) have "supertype v = None \<or> (\<exists>s. supertype v = Some s \<and> s \<in> set (order @ [k0]))"
        by auto
      from Cons.IH [OF mem Cons.prems(2) this] e show ?thesis by simp
    qed
  qed
qed

lemma grounded_unplaced:
  assumes "grounded items k" and "set (map fst (filter (\<lambda>kv. is_word_anchor (snd kv)) items)) \<subseteq> set order"
    and "k \<notin> set order"
  shows "\<exists>k' v'. (k', v') \<in> set items \<and> \<not> base v' \<and> k' \<notin> set order
           \<and> (supertype v' = None \<or> (\<exists>s. supertype v' = Some s \<and> s \<in> set order))"
  using assms
proof (induction rule: grounded.induct)
  case (word_level k v)
  from word_level(1) have "(k, v) \<in> set items" by (rule map_of_SomeD)
  with word_level(2) have "k \<in> set (map fst (filter (\<lambda>kv. is_word_anchor (snd kv)) items))"
    by force
  with word_level(3,4) show ?case by blast
next
  case (root k v)
  from root(1) have "(k, v) \<in> set items" by (rule map_of_SomeD)
  with root show ?case by blast
next
  case (child k v s)
  from child(1) have mem: "(k, v) \<in> set items" by (rule map_of_SomeD)
  show ?case
  proof (cases "s \<in> set order")
    case True
    with mem child(2,3,7) show ?thesis by blast
  next
    case False
    from child(5) [OF child(6) False] show ?thesis .
  qed
qed

lemma process_loop_places_all:
  assumes nb: "distinct (non_base_keys items)"
    and gr: "\<forall>k \<in> set (non_base_keys items). grounded items k"
    and wl: "set (map fst (filter (\<lambda>kv. is_word_anchor (snd kv)) items)) \<subseteq> set order"
    and dist: "distinct order" and sub: "set order \<subseteq> set (non_base_keys items)"
  shows "\<exists>res. process_loop items (length (non_base_keys items)) order = Some res
           \<and> distinct res \<and> set res = set (non_base_keys items)"
  using wl dist sub
proof (induction "length (non_base_keys items) - length order" arbitrary: order rule: less_induct)
  case less
  let ?NB = "non_base_keys items"
  show ?case
  proof (cases "length order < length ?NB")
    case False
    from less.prems(2) have "card (set order) = length order" by (rule distinct_card)
    moreover from nb have "card (set ?NB) = length ?NB" by (rule distinct_card)
    ultimately have "card (set ?NB) \<le> card (set order)" using False by simp
    with less.prems(3) have "set order = set ?NB" by (simp add: card_seteq)
    moreover from False have "process_loop items (length ?NB) order = Some order"
      by (subst process_loop.simps) simp
    ultimately show ?thesis using less.prems(2) by simp
  next
    case True
    from less.prems(2) have "card (set order) = length order" by (rule distinct_card)
    moreover from nb have "card (set ?NB) = length ?NB" by (rule distinct_card)
    ultimately have "set order \<noteq> set ?NB" using True by auto
    with less.prems(3) obtain k where k: "k \<in> set ?NB" "k \<notin> set order" by blast
    with gr have "grounded items k" by blast
    from grounded_unplaced [OF this less.prems(1) k(2)]
    obtain k' v' where k': "(k', v') \<in> set items" "\<not> base v'" "k' \<notin> set order"
      "supertype v' = None \<or> (\<exists>s. supertype v' = Some s \<and> s \<in> set order)" by blast
    from process_pass_places [OF k'(1,2,4)] have placed: "k' \<in> set (process_pass items order)" .
    from process_pass_append [of items order] obtain new
      where new: "process_pass items order = order @ new" "distinct new"
        "set new \<inter> set order = {}" "set new \<subseteq> set ?NB" by blast
    from placed k'(3) new(1) have "new \<noteq> []" by auto
    then have longer: "length order < length (process_pass items order)" by (simp add: new(1))
    have d': "distinct (process_pass items order)"
      using less.prems(2) new by auto
    have s': "set (process_pass items order) \<subseteq> set ?NB"
      using less.prems(3) new by auto
    have w': "set (map fst (filter (\<lambda>kv. is_word_anchor (snd kv)) items))
                \<subseteq> set (process_pass items order)"
      using less.prems(1) process_pass_mono [of order items] by blast
    have "length ?NB - length (process_pass items order) < length ?NB - length order"
      using True longer by arith
    from less.hyps [OF this w' d' s'] obtain res
      where res: "process_loop items (length ?NB) (process_pass items order) = Some res"
        "distinct res" "set res = set ?NB" by blast
    from True have "process_loop items (length ?NB) order
        = process_loop items (length ?NB) (process_pass items order)"
      by (subst process_loop.simps) simp
    with res show ?thesis by simp
  qed
qed

lemma process_loop_stuck:
  assumes "process_pass items order = order" and "length order < bound"
  shows "process_loop items bound order = None"
proof (rule ccontr)
  assume "process_loop items bound order \<noteq> None"
  then obtain y where y: "process_loop items bound order = Some y" by blast
  have "\<not> (process_pass items order = order \<and> length order < bound)"
  proof (rule process_loop.raw_induct
      [where P = "\<lambda>items bound order y. \<not> (process_pass items order = order \<and> length order < bound)",
        OF _ y])
    fix f :: "(string \<times> 'a annotation_type) list \<Rightarrow> nat \<Rightarrow> string list \<Rightarrow> string list option"
      and items bound order y
    assume IH: "\<And>items bound order y. f items bound order = Some y
        \<Longrightarrow> \<not> (process_pass items order = order \<and> length order < bound)"
      and step: "(if length order < bound then f items bound (process_pass items order)
                  else Some order) = Some y"
    show "\<not> (process_pass items order = order \<and> length order < bound)"
    proof
      assume stuck: "process_pass items order = order \<and> length order < bound"
      with step have "f items bound order = Some y" by simp
      from IH [OF this] stuck show False by blast
    qed
  qed
  with assms show False by blast
qed

lemma bound_non_base:
  "length (map fst (data d)) - length (base_levels d) = length (non_base_keys (data d))"
proof -
  have "length (filter (\<lambda>kv. base (snd kv)) (data d))
          + length (filter (\<lambda>kv. \<not> base (snd kv)) (data d)) = length (data d)"
    by (rule sum_length_filter_compl)
  then show ?thesis by (simp add: base_levels_def non_base_keys_def)
qed

text \<open>
  C3, as amended: for every DiscourseData (a dict, so with distinct tier names) in which no
  word level is a base tier and every tier that is not a base tier is grounded (its chain of
  supertypes leads through tiers that are not base tiers to a tier without supertype or to
  a word level: no cycle, no dangling name, no base tier as supertype), \<open>process_order\<close>
  terminates and returns every tier that is not a base tier exactly once. For a 2-cycle of
  two tiers that are neither base tiers nor word levels, each the other's supertype, it
  raises nothing and does not terminate.
\<close>

theorem process_order_places_all_or_diverges:
  "(distinct (map fst (data d))
      \<and> (\<forall>kv \<in> set (data d). is_word_anchor (snd kv) \<longrightarrow> \<not> base (snd kv))
      \<and> (\<forall>kv \<in> set (data d). \<not> base (snd kv) \<longrightarrow> grounded (data d) (fst kv))
    \<longrightarrow> (\<exists>order. process_order d = Some order \<and> distinct order
            \<and> set order = set (non_base_keys (data d))))
   \<and> (data c = [(a, va), (b, vb)] \<and> a \<noteq> b \<and> supertype va = Some b \<and> supertype vb = Some a
        \<and> \<not> base va \<and> \<not> base vb \<and> \<not> is_word_anchor va \<and> \<not> is_word_anchor vb
    \<longrightarrow> process_order c = None)"
proof (intro conjI impI)
  assume a: "distinct (map fst (data d))
      \<and> (\<forall>kv \<in> set (data d). is_word_anchor (snd kv) \<longrightarrow> \<not> base (snd kv))
      \<and> (\<forall>kv \<in> set (data d). \<not> base (snd kv) \<longrightarrow> grounded (data d) (fst kv))"
  let ?items = "data d"
  from a have dk: "distinct (map fst ?items)" by blast
  then have nb: "distinct (non_base_keys ?items)"
    unfolding non_base_keys_def by (rule distinct_map_filter)
  from a have gr: "\<forall>k \<in> set (non_base_keys ?items). grounded ?items k"
    by (auto simp: non_base_keys_def)
  have wl: "set (map fst (filter (\<lambda>kv. is_word_anchor (snd kv)) ?items)) \<subseteq> set (word_levels d)"
    by (simp add: word_levels_def)
  from dk have dist: "distinct (word_levels d)"
    unfolding word_levels_def by (rule distinct_map_filter)
  from a have sub: "set (word_levels d) \<subseteq> set (non_base_keys ?items)"
    by (auto simp: word_levels_def non_base_keys_def)
  from process_loop_places_all [OF nb gr wl dist sub]
  show "\<exists>order. process_order d = Some order \<and> distinct order
            \<and> set order = set (non_base_keys (data d))"
    unfolding process_order_def bound_non_base .
next
  assume c: "data c = [(a, va), (b, vb)] \<and> a \<noteq> b \<and> supertype va = Some b \<and> supertype vb = Some a
        \<and> \<not> base va \<and> \<not> base vb \<and> \<not> is_word_anchor va \<and> \<not> is_word_anchor vb"
  then have w: "word_levels c = []" and bl: "base_levels c = []"
    by (simp_all add: word_levels_def base_levels_def)
  from c have "process_pass (data c) [] = []" by simp
  then have "process_loop (data c) 2 [] = None"
    by (rule process_loop_stuck) simp
  moreover from c have "length (map fst (data c)) - length (base_levels c) = 2"
    by (simp add: bl)
  ultimately show "process_order c = None"
    by (simp add: process_order_def w)
qed

text \<open>
  The forest with a word tier, a syllable tier below it, a stress tier below that, a morpheme
  tier without supertype and a base phone tier: one pass places the four tiers that are not
  base tiers. The 2-cycle of \<open>A\<close> and \<open>B\<close>: no result.
\<close>

theorem process_order_places_all_or_diverges_witness:
  "distinct (map fst (data forest_data))
   \<and> list_all (\<lambda>kv. \<not> (is_word_anchor (snd kv) \<and> base (snd kv))) (data forest_data)
   \<and> list_all (\<lambda>kv. base (snd kv) \<or> grounded (data forest_data) (fst kv)) (data forest_data)
   \<and> process_order forest_data = Some [''word'', ''syllable'', ''stressed'', ''morph'']
   \<and> (\<exists>order. process_order forest_data = Some order \<and> distinct order
         \<and> set order = set [''syllable'', ''stressed'', ''word'', ''morph''])
   \<and> process_order two_cycle = None"
proof -
  let ?syl = "(plain_tier ''syllable'' :: unit annotation_type)\<lparr>supertype := Some ''word''\<rparr>"
  let ?pho = "(plain_tier ''phone'' :: unit annotation_type)\<lparr>base := True, supertype := Some ''syllable''\<rparr>"
  let ?str = "(plain_tier ''stressed'' :: unit annotation_type)\<lparr>supertype := Some ''syllable''\<rparr>"
  let ?wor = "(plain_tier ''word'' :: unit annotation_type)\<lparr>anchor := True\<rparr>"
  let ?mor = "plain_tier ''morph'' :: unit annotation_type"
  let ?items = "[(''syllable'', ?syl), (''phone'', ?pho), (''stressed'', ?str),
                 (''word'', ?wor), (''morph'', ?mor)]"
  have items: "data forest_data = ?items" by (simp add: forest_data_def)
  have gw: "grounded ?items ''word''"
    by (rule grounded.word_level [where v = ?wor]) (simp_all add: is_word_anchor_def plain_tier_def)
  have gm: "grounded ?items ''morph''"
    by (rule grounded.root [where v = ?mor]) (simp_all add: plain_tier_def)
  have gs: "grounded ?items ''syllable''"
    by (rule grounded.child [where v = ?syl and s = "''word''", OF _ _ _ gw])
      (simp_all add: plain_tier_def)
  have gt: "grounded ?items ''stressed''"
    by (rule grounded.child [where v = ?str and s = "''syllable''", OF _ _ _ gs])
      (simp_all add: plain_tier_def)
  have h1: "distinct (map fst (data forest_data))" by (simp add: items)
  have h2: "list_all (\<lambda>kv. \<not> (is_word_anchor (snd kv) \<and> base (snd kv))) (data forest_data)"
    unfolding items by (simp add: is_word_anchor_def plain_tier_def)
  have h3: "list_all (\<lambda>kv. base (snd kv) \<or> grounded (data forest_data) (fst kv)) (data forest_data)"
    unfolding items by (simp add: gw gm gs gt)
  have nb: "non_base_keys (data forest_data) = [''syllable'', ''stressed'', ''word'', ''morph'']"
    unfolding items by (simp add: non_base_keys_def plain_tier_def)
  have hyp: "distinct (map fst (data forest_data))
      \<and> (\<forall>kv \<in> set (data forest_data). is_word_anchor (snd kv) \<longrightarrow> \<not> base (snd kv))
      \<and> (\<forall>kv \<in> set (data forest_data). \<not> base (snd kv) \<longrightarrow> grounded (data forest_data) (fst kv))"
    using h1 h2 h3 by (auto simp: list_all_iff)
  let ?A = "(plain_tier ''A'' :: unit annotation_type)\<lparr>supertype := Some ''B''\<rparr>"
  let ?B = "(plain_tier ''B'' :: unit annotation_type)\<lparr>supertype := Some ''A''\<rparr>"
  have hyp2: "data two_cycle = [(''A'', ?A), (''B'', ?B)] \<and> ''A'' \<noteq> ''B''
      \<and> supertype ?A = Some ''B'' \<and> supertype ?B = Some ''A''
      \<and> \<not> base ?A \<and> \<not> base ?B \<and> \<not> is_word_anchor ?A \<and> \<not> is_word_anchor ?B"
    by (simp add: two_cycle_def plain_tier_def is_word_anchor_def)
  note t = process_order_places_all_or_diverges
    [of forest_data two_cycle "''A''" ?A "''B''" ?B]
  from t hyp have ex: "\<exists>order. process_order forest_data = Some order \<and> distinct order
         \<and> set order = set [''syllable'', ''stressed'', ''word'', ''morph'']"
    unfolding nb by blast
  from t hyp2 have cyc: "process_order two_cycle = None" by blast
  have pass: "process_pass (data forest_data) [''word'']
      = [''word'', ''syllable'', ''stressed'', ''morph'']"
    by (simp add: forest_data_def plain_tier_def)
  have loop: "process_loop (data forest_data) 4 [''word'']
      = Some [''word'', ''syllable'', ''stressed'', ''morph'']"
    apply (subst process_loop.simps)
    apply (simp only: pass)
    apply (subst process_loop.simps)
    apply simp
    done
  have wls: "word_levels forest_data = [''word'']"
    by (simp add: word_levels_def forest_data_def is_word_anchor_def plain_tier_def)
  have bound: "length (map fst (data forest_data)) - length (base_levels forest_data) = 4"
    by (simp add: base_levels_def forest_data_def plain_tier_def)
  have run: "process_order forest_data = Some [''word'', ''syllable'', ''stressed'', ''morph'']"
    unfolding process_order_def bound wls by (rule loop)
  show ?thesis
    by (intro conjI) (rule h1 h2 h3 run ex cyc)+
qed

text \<open>
  C3 as stated fails on three inputs. On the 2-cycle \<open>process_order\<close> raises nothing: the first
  pass places no tier, the loop condition still holds, and the loop never ends. The same
  happens on an acyclic forest in which a tier's supertype is a base tier (word, base phone
  below word, feature below phone). And where the word level is itself a base tier, the loop
  condition is false at once: the result is the word level alone, and the tier \<open>line\<close>, which is
  not a base tier, is never placed.
\<close>

theorem process_order_counterexample:
  "process_order two_cycle = None
   \<and> process_order below_base = None
   \<and> process_order base_word = Some [''word'']
   \<and> non_base_keys (data base_word) = [''line'']"
proof -
  have 1: "process_order two_cycle = None"
    unfolding process_order_def
    by (rule process_loop_stuck)
      (simp_all add: two_cycle_def word_levels_def base_levels_def is_word_anchor_def plain_tier_def)
  have 2: "process_order below_base = None"
    unfolding process_order_def
    by (rule process_loop_stuck)
      (simp_all add: below_base_def word_levels_def base_levels_def is_word_anchor_def plain_tier_def)
  have 3: "process_order base_word = Some [''word'']"
    unfolding process_order_def
    by (subst process_loop.simps)
      (simp add: base_word_def word_levels_def base_levels_def is_word_anchor_def plain_tier_def)
  have 4: "non_base_keys (data base_word) = [''line'']"
    by (simp add: non_base_keys_def base_word_def plain_tier_def)
  show ?thesis
    by (intro conjI) (rule 1 2 3 4)+
qed

end
